theory Spec2Isabelle
  imports Complex_Main "HOL-Library.Product_Lexorder"
begin

section \<open>Python values and documents\<close>

text \<open>
  A calendar date is the triple (year, month, day). Python compares \<open>date\<close> objects by
  year, then month, then day, which is the lexicographic order on the triple. A
  \<open>date\<close> object is always truthy, so \<open>if start_date\<close> only tests for \<open>None\<close>.
\<close>

type_synonym date = "nat \<times> nat \<times> nat"

text \<open>
  The values a document holds. An \<open>ObjectId\<close> and a \<open>datetime\<close> are never computed
  with by the program: each is represented by the text that \<open>str()\<close> gives for it (for an
  \<open>ObjectId\<close>, its hexadecimal form). User-supplied text (user names, notes) is only tested
  for emptiness and equality, so it is kept as a \<open>string\<close>.
\<close>

datatype pyval =
    VNone
  | VStr string
  | VInt int
  | VDate date
  | VDatetime string
  | VObjectId string

type_synonym doc = "string \<rightharpoonup> pyval"

subsection \<open>The builtin \<open>str\<close>\<close>

definition digit_char :: "nat \<Rightarrow> char" where
  "digit_char d = ''0123456789'' ! d"

fun str_nat :: "nat \<Rightarrow> string" where
  "str_nat n = (if n < 10 then [digit_char n] else str_nat (n div 10) @ [digit_char (n mod 10)])"

declare str_nat.simps [simp del]

definition zfill :: "nat \<Rightarrow> string \<Rightarrow> string" where
  "zfill w s = replicate (w - length s) (CHR ''0'') @ s"

fun py_str :: "pyval \<Rightarrow> string" where
  "py_str VNone = ''None''"
| "py_str (VStr s) = s"
| "py_str (VInt i) = (if i < 0 then CHR ''-'' # str_nat (nat (- i)) else str_nat (nat i))"
| "py_str (VDate (y, m, d)) =
     zfill 4 (str_nat y) @ ''-'' @ zfill 2 (str_nat m) @ ''-'' @ zfill 2 (str_nat d)"
| "py_str (VDatetime t) = t"
| "py_str (VObjectId h) = h"

subsection \<open>\<open>serialize_doc\<close>\<close>

text \<open>
  \<^verbatim>\<open>
  def serialize_doc(doc):
      d = dict(doc)
      if "_id" in d:
          d["id"] = str(d.pop("_id"))
      return d
  \<close>
  On values: the dictionary the function returns, as a function of the dictionary it is
  given.
\<close>

definition serialize_doc :: "doc \<Rightarrow> doc" where
  "serialize_doc doc =
     (let d = doc in
      case d ''_id'' of
        None \<Rightarrow> d
      | Some v \<Rightarrow> (d(''_id'' := None))(''id'' \<mapsto> VStr (py_str v)))"

text \<open>
  On objects: dictionaries live in a heap (a list of dictionaries, addressed by
  position). \<open>dict(doc)\<close> allocates a new dictionary with the entries of the one at
  \<open>doc\<close>; \<open>pop\<close> and the item assignment update the dictionary at the new address
  \<open>d\<close>. The function returns the address \<open>d\<close> and the heap it leaves.
\<close>

type_synonym heap = "doc list"

definition dict_copy :: "heap \<Rightarrow> nat \<Rightarrow> nat \<times> heap" where
  "dict_copy h a = (length h, h @ [h ! a])"

definition dict_pop :: "heap \<Rightarrow> nat \<Rightarrow> string \<Rightarrow> heap" where
  "dict_pop h a k = h[a := (h ! a)(k := None)]"

definition dict_set :: "heap \<Rightarrow> nat \<Rightarrow> string \<Rightarrow> pyval \<Rightarrow> heap" where
  "dict_set h a k v = h[a := (h ! a)(k \<mapsto> v)]"

definition serialize_doc_heap :: "heap \<Rightarrow> nat \<Rightarrow> nat \<times> heap" where
  "serialize_doc_heap h doc =
     (let (d, h1) = dict_copy h doc in
      case (h1 ! d) ''_id'' of
        None \<Rightarrow> (d, h1)
      | Some v \<Rightarrow> (d, dict_set (dict_pop h1 d ''_id'') d ''id'' (VStr (py_str v))))"

section \<open>The document store\<close>

text \<open>
  Modelled from the spec: the store adapter (\<open>database.py\<close>: \<open>db\<close>, \<open>create_document\<close>,
  \<open>get_documents\<close>) is imported by \<open>main.py\<close> and is not among the sources. Spec 4.1:
  \<open>create_document\<close> "accepts a validated payload object, inserts it into the named
  collection, returns the newly assigned identifier as a string"; \<open>get_documents\<close>
  "accepts a mapping of field constraints and a maximum row count; returns a ... sequence
  of raw stored records (order as returned by the store)". Spec 3: the identifier is
  "store-assigned", "never reused", and the timestamps are "store-assigned".

  The store holds, for each collection name, the documents in insertion order, the
  number of identifiers issued so far, and its clock. Identifiers are issued by that
  counter. A store that is connected always answers: connectivity failures are outside
  this model.
\<close>

record store =
  contents :: "string \<Rightarrow> doc list"
  issued :: nat
  clock :: string

definition empty_store :: "string \<Rightarrow> store" where
  "empty_store now = \<lparr>contents = (\<lambda>_. []), issued = 0, clock = now\<rparr>"

definition object_id :: "nat \<Rightarrow> pyval" where
  "object_id n = VObjectId (str_nat n)"

definition issued_ids :: "store \<Rightarrow> string list" where
  "issued_ids s = map (\<lambda>n. py_str (object_id n)) [0..<issued s]"

definition create_document :: "store \<Rightarrow> string \<Rightarrow> doc \<Rightarrow> string \<times> store" where
  "create_document s collection_name data =
     (let oid = object_id (issued s);
          data_dict = data(''created_at'' \<mapsto> VDatetime (clock s),
                           ''updated_at'' \<mapsto> VDatetime (clock s),
                           ''_id'' \<mapsto> oid)
      in (py_str oid,
          s\<lparr>contents := (contents s)(collection_name := contents s collection_name @ [data_dict]),
            issued := Suc (issued s)\<rparr>))"

text \<open>
  A filter as \<open>list_steps\<close> builds it: the dictionary \<open>query\<close> has at most the keys
  \<open>"user"\<close> (a string to equal) and \<open>"date"\<close> (a dictionary with at most the keys
  \<open>"$gte"\<close> and \<open>"$lte"\<close>). An absent key is \<open>None\<close>. A comparison constraint is met
  only by a document whose field holds a date.
\<close>

record date_range =
  gte :: "date option"
  lte :: "date option"

record query =
  q_user :: "string option"
  q_date :: "date_range option"

definition in_range :: "date_range \<Rightarrow> date \<Rightarrow> bool" where
  "in_range r x =
     ((case gte r of None \<Rightarrow> True | Some lo \<Rightarrow> lo \<le> x) \<and>
      (case lte r of None \<Rightarrow> True | Some hi \<Rightarrow> x \<le> hi))"

definition date_matches :: "date_range \<Rightarrow> doc \<Rightarrow> bool" where
  "date_matches r d = (case d ''date'' of Some (VDate x) \<Rightarrow> in_range r x | _ \<Rightarrow> False)"

definition matches :: "query \<Rightarrow> doc \<Rightarrow> bool" where
  "matches q d =
     ((case q_user q of None \<Rightarrow> True | Some u \<Rightarrow> d ''user'' = Some (VStr u)) \<and>
      (case q_date q of None \<Rightarrow> True | Some r \<Rightarrow> date_matches r d))"

definition get_documents :: "store \<Rightarrow> string \<Rightarrow> query \<Rightarrow> int \<Rightarrow> doc list" where
  "get_documents s collection_name filter_dict limit =
     take (nat limit) (filter (matches filter_dict) (contents s collection_name))"

section \<open>The validated payloads\<close>

text \<open>
  Modelled from the spec: \<open>schemas.py\<close> (\<open>StepLog\<close>, \<open>User\<close>) is not among the sources.
  Spec 3: a step-log entry has a non-empty user, a non-negative step count, a date and
  an optional note. A user record is "an opaque validated payload": its dictionary.
\<close>

record StepLog =
  sl_user :: string
  sl_steps :: int
  sl_date :: date
  sl_note :: "string option"

definition valid_steplog :: "StepLog \<Rightarrow> bool" where
  "valid_steplog entry = (sl_user entry \<noteq> [] \<and> 0 \<le> sl_steps entry)"

definition model_dump :: "StepLog \<Rightarrow> doc" where
  "model_dump entry =
     [''user'' \<mapsto> VStr (sl_user entry),
      ''steps'' \<mapsto> VInt (sl_steps entry),
      ''date'' \<mapsto> VDate (sl_date entry),
      ''note'' \<mapsto> (case sl_note entry of None \<Rightarrow> VNone | Some n \<Rightarrow> VStr n)]"

section \<open>The API layer\<close>

datatype error =
    HTTPException nat string
  | InvalidDocument string
  | OperationFailure string
  | ValueError string
  | OverflowError string
  | ValidationError string

text \<open>
  \<open>db\<close> is \<open>None\<close> or the connected store. A handler that writes returns its response
  and the store it leaves. The parameter \<open>log\<close> is written \<open>entry\<close> here.
  \<^verbatim>\<open>
  def add_steps(log: StepLog):
      if db is None:
          raise HTTPException(status_code=500, detail="Database not configured")
      inserted_id = create_document("steplog", log)
      return {"id": inserted_id}
  \<close>
\<close>

definition add_steps :: "store option \<Rightarrow> StepLog \<Rightarrow> error + doc \<times> store" where
  "add_steps db entry =
     (case db of
        None \<Rightarrow> Inl (HTTPException 500 ''Database not configured'')
      | Some s \<Rightarrow>
          (let (inserted_id, s') = create_document s ''steplog'' (model_dump entry)
           in Inr ([''id'' \<mapsto> VStr inserted_id], s')))"

text \<open>
  \<^verbatim>\<open>
  def create_user(user: User):
      if db is None:
          raise HTTPException(status_code=500, detail="Database not configured")
      inserted_id = create_document("user", user)
      return {"id": inserted_id}
  \<close>
\<close>

definition create_user :: "store option \<Rightarrow> doc \<Rightarrow> error + doc \<times> store" where
  "create_user db usr =
     (case db of
        None \<Rightarrow> Inl (HTTPException 500 ''Database not configured'')
      | Some s \<Rightarrow>
          (let (inserted_id, s') = create_document s ''user'' usr
           in Inr ([''id'' \<mapsto> VStr inserted_id], s')))"

text \<open>
  \<^verbatim>\<open>
  def list_steps(user: Optional[str] = None, start_date: Optional[date] = None,
                 end_date: Optional[date] = None, limit: int = 50):
      if db is None:
          raise HTTPException(status_code=500, detail="Database not configured")
      query = {}
      if user:
          query["user"] = user
      if start_date and end_date:
          query["date"] = {"$gte": start_date, "$lte": end_date}
      elif start_date:
          query["date"] = {"$gte": start_date}
      elif end_date:
          query["date"] = {"$lte": end_date}
      docs = get_documents("steplog", query, limit)
      return [serialize_doc(d) for d in docs]
  \<close>
  A query parameter that the request leaves out is \<open>None\<close>; for \<open>limit\<close> the default
  then applies. \<open>if user\<close> is false for \<open>None\<close> and for the empty string.
\<close>

definition list_steps_query :: "string option \<Rightarrow> date option \<Rightarrow> date option \<Rightarrow> query" where
  "list_steps_query usr start_date end_date =
     (let query = \<lparr>q_user = None, q_date = None\<rparr>;
          query = (if usr \<noteq> None \<and> usr \<noteq> Some [] then query\<lparr>q_user := usr\<rparr> else query);
          query =
            (if start_date \<noteq> None \<and> end_date \<noteq> None
               then query\<lparr>q_date := Some \<lparr>gte = start_date, lte = end_date\<rparr>\<rparr>
             else if start_date \<noteq> None
               then query\<lparr>q_date := Some \<lparr>gte = start_date, lte = None\<rparr>\<rparr>
             else if end_date \<noteq> None
               then query\<lparr>q_date := Some \<lparr>gte = None, lte = end_date\<rparr>\<rparr>
             else query)
      in query)"

definition list_steps ::
  "store option \<Rightarrow> string option \<Rightarrow> date option \<Rightarrow> date option \<Rightarrow> int option \<Rightarrow> error + doc list"
where
  "list_steps db usr start_date end_date limit_param =
     (case db of
        None \<Rightarrow> Inl (HTTPException 500 ''Database not configured'')
      | Some s \<Rightarrow>
          (let limit = (case limit_param of None \<Rightarrow> 50 | Some n \<Rightarrow> n);
               query = list_steps_query usr start_date end_date;
               docs = get_documents s ''steplog'' query limit
           in Inr (map serialize_doc docs)))"

subsection \<open>The leaderboard\<close>

text \<open>
  \<open>db["steplog"].aggregate\<close> is the driver's call. The driver first encodes the
  pipeline as BSON, and it has no encoding for a \<open>datetime.date\<close>: a pipeline that holds
  one raises \<open>InvalidDocument\<close> before the store sees it. A pipeline that encodes runs in
  the store, whose stages follow its documented rules: \<open>$group\<close> with
  \<open>"_id": "$user"\<close> makes one group per distinct value of the field \<open>user\<close> (a missing
  field groups under null) and \<open>{"$sum": "$steps"}\<close> adds the numeric values of
  \<open>steps\<close>, ignoring a document where the field is missing or not a number;
  \<open>$sort\<close> with \<open>-1\<close> orders by descending total; \<open>$limit\<close> keeps the first \<open>n\<close> rows
  and rejects an \<open>n\<close> that is not positive; \<open>$project\<close> renames \<open>_id\<close> to \<open>user\<close>.
  Groups come out in the order of their first document, and the sort is stable: the
  order among equal totals is the store's own and no theorem below depends on it. Sums
  are mathematical integers.
\<close>

definition doc_user :: "doc \<Rightarrow> pyval" where
  "doc_user d = (case d ''user'' of None \<Rightarrow> VNone | Some v \<Rightarrow> v)"

definition doc_steps :: "doc \<Rightarrow> int" where
  "doc_steps d = (case d ''steps'' of Some (VInt n) \<Rightarrow> n | _ \<Rightarrow> 0)"

record group_row =
  g_id :: pyval
  g_total_steps :: int

fun add_group :: "pyval \<Rightarrow> int \<Rightarrow> group_row list \<Rightarrow> group_row list" where
  "add_group k n [] = [\<lparr>g_id = k, g_total_steps = n\<rparr>]"
| "add_group k n (g # gs) =
     (if g_id g = k then g\<lparr>g_total_steps := g_total_steps g + n\<rparr> # gs
      else g # add_group k n gs)"

definition stage_group :: "doc list \<Rightarrow> group_row list" where
  "stage_group docs = foldl (\<lambda>groups d. add_group (doc_user d) (doc_steps d) groups) [] docs"

definition stage_sort :: "group_row list \<Rightarrow> group_row list" where
  "stage_sort groups = sort_key (\<lambda>g. - g_total_steps g) groups"

definition stage_limit :: "int \<Rightarrow> group_row list \<Rightarrow> error + group_row list" where
  "stage_limit n groups =
     (if n \<le> 0 then Inl (OperationFailure ''the limit must be positive'')
      else Inr (take (nat n) groups))"

text \<open>
  A row of the aggregation's result, \<open>{"user": ..., "total_steps": ...}\<close>. The total is
  a number of the store: an integer, a finite double (by its exact value), an infinity
  or NaN.
\<close>

datatype number = NInt int | NFloat rat | NInf | NNaN

record result_row =
  r_user :: pyval
  r_total_steps :: number

definition stage_project :: "group_row list \<Rightarrow> result_row list" where
  "stage_project groups =
     map (\<lambda>g. \<lparr>r_user = g_id g, r_total_steps = NInt (g_total_steps g)\<rparr>) groups"

text \<open>
  \<open>db["steplog"].aggregate(pipeline)\<close> for the pipeline that \<open>leaderboard\<close> builds: the
  \<open>$match\<close> stage when \<open>match\<close> is not empty, then \<open>$group\<close>, \<open>$sort\<close>,
  \<open>$limit\<close> and \<open>$project\<close>. The \<open>$match\<close> stage that \<open>leaderboard\<close> builds always
  holds a bound, which is the \<open>datetime.date\<close> that the request gave: the driver raises
  on it.
\<close>

definition aggregate :: "doc list \<Rightarrow> date_range option \<Rightarrow> int \<Rightarrow> error + result_row list" where
  "aggregate docs match_stage limit =
     (case match_stage of
        Some r \<Rightarrow> Inl (InvalidDocument ''cannot encode object: datetime.date'')
      | None \<Rightarrow>
          (let sorted_groups = stage_sort (stage_group docs)
           in case stage_limit limit sorted_groups of
                Inl e \<Rightarrow> Inl e
              | Inr kept \<Rightarrow> Inr (stage_project kept)))"

text \<open>
  The builtin \<open>int\<close> on a number: a float is truncated towards zero; an infinity and
  NaN raise.
\<close>

fun py_int :: "number \<Rightarrow> error + int" where
  "py_int (NInt n) = Inr n"
| "py_int (NFloat q) = Inr (if q < 0 then \<lceil>q\<rceil> else \<lfloor>q\<rfloor>)"
| "py_int NInf = Inl (OverflowError ''cannot convert float infinity to integer'')"
| "py_int NNaN = Inl (ValueError ''cannot convert float NaN to integer'')"

record LeaderboardRow =
  user :: string
  total_steps :: int

text \<open>
  \<open>LeaderboardRow(user=r["user"], total_steps=int(r["total_steps"]))\<close>: the arguments
  are evaluated first, then the model validates that \<open>user\<close> is a string.
\<close>

definition make_row :: "result_row \<Rightarrow> error + LeaderboardRow" where
  "make_row r =
     (case py_int (r_total_steps r) of
        Inl e \<Rightarrow> Inl e
      | Inr n \<Rightarrow>
          (case r_user r of
             VStr u \<Rightarrow> Inr \<lparr>user = u, total_steps = n\<rparr>
           | _ \<Rightarrow> Inl (ValidationError ''user'')))"

fun make_rows :: "result_row list \<Rightarrow> error + LeaderboardRow list" where
  "make_rows [] = Inr []"
| "make_rows (r # rs) =
     (case make_row r of
        Inl e \<Rightarrow> Inl e
      | Inr row \<Rightarrow> (case make_rows rs of Inl e \<Rightarrow> Inl e | Inr rows \<Rightarrow> Inr (row # rows)))"

text \<open>
  \<^verbatim>\<open>
  def leaderboard(start_date: Optional[date] = None, end_date: Optional[date] = None,
                  limit: int = 10):
      if db is None:
          raise HTTPException(status_code=500, detail="Database not configured")
      match = {}
      if start_date and end_date:
          match["date"] = {"$gte": start_date, "$lte": end_date}
      elif start_date:
          match["date"] = {"$gte": start_date}
      elif end_date:
          match["date"] = {"$lte": end_date}
      pipeline = []
      if match:
          pipeline.append({"$match": match})
      pipeline += [
          {"$group": {"_id": "$user", "total_steps": {"$sum": "$steps"}}},
          {"$sort": {"total_steps": -1}},
          {"$limit": limit},
          {"$project": {"user": "$_id", "total_steps": 1, "_id": 0}}
      ]
      results = list(db["steplog"].aggregate(pipeline))
      return [LeaderboardRow(user=r["user"], total_steps=int(r["total_steps"]))
              for r in results]
  \<close>
  \<open>match\<close> has at most the key \<open>"date"\<close>: it is \<open>None\<close> when empty.
\<close>

definition leaderboard_match :: "date option \<Rightarrow> date option \<Rightarrow> date_range option" where
  "leaderboard_match start_date end_date =
     (if start_date \<noteq> None \<and> end_date \<noteq> None
        then Some \<lparr>gte = start_date, lte = end_date\<rparr>
      else if start_date \<noteq> None
        then Some \<lparr>gte = start_date, lte = None\<rparr>
      else if end_date \<noteq> None
        then Some \<lparr>gte = None, lte = end_date\<rparr>
      else None)"

definition leaderboard ::
  "store option \<Rightarrow> date option \<Rightarrow> date option \<Rightarrow> int option \<Rightarrow> error + LeaderboardRow list"
where
  "leaderboard db start_date end_date limit_param =
     (case db of
        None \<Rightarrow> Inl (HTTPException 500 ''Database not configured'')
      | Some s \<Rightarrow>
          (let limit = (case limit_param of None \<Rightarrow> 10 | Some n \<Rightarrow> n);
               match_dict = leaderboard_match start_date end_date
           in case aggregate (contents s ''steplog'') match_dict limit of
                Inl e \<Rightarrow> Inl e
              | Inr results \<Rightarrow> make_rows results))"

subsection \<open>The diagnostics endpoint\<close>

text \<open>
  Text that is cut to a number of characters is a list of code points, as a Python
  \<open>str\<close> is. \<open>test_database\<close> sees of \<open>db\<close> its attribute \<open>name\<close> (missing, raising
  on access, or present) and what \<open>list_collection_names()\<close> does: it returns the names
  or raises. An exception is the text \<open>str(e)\<close> gives for it.
\<close>

type_synonym ustring = "nat list"

definition ascii :: "string \<Rightarrow> ustring" where
  "ascii s = map of_char s"

datatype 'a attr = Missing | Raises ustring | Present 'a

record db_handle =
  name_attr :: "ustring attr"
  list_collection_names :: "ustring + ustring list"

record response =
  backend :: ustring
  database :: ustring
  database_url :: "ustring option"
  database_name :: "ustring option"
  connection_status :: ustring
  collections :: "ustring list"

text \<open>
  A statement takes the response dictionary and leaves it updated; it ends normally
  (\<open>None\<close>) or with an exception raised. The updates made before a raise stay.
\<close>

type_synonym stmt = "response \<Rightarrow> ustring option \<times> response"

definition assign :: "(response \<Rightarrow> response) \<Rightarrow> stmt" where
  "assign f r = (None, f r)"

definition assign_expr :: "ustring + 'a \<Rightarrow> ('a \<Rightarrow> response \<Rightarrow> response) \<Rightarrow> stmt" where
  "assign_expr e f r = (case e of Inl x \<Rightarrow> (Some x, r) | Inr v \<Rightarrow> (None, f v r))"

fun block :: "stmt list \<Rightarrow> stmt" where
  "block [] r = (None, r)"
| "block (c # cs) r = (case c r of (None, r') \<Rightarrow> block cs r' | (Some x, r') \<Rightarrow> (Some x, r'))"

definition try_except :: "stmt \<Rightarrow> (ustring \<Rightarrow> stmt) \<Rightarrow> stmt" where
  "try_except body handler r =
     (case body r of (None, r') \<Rightarrow> (None, r') | (Some x, r') \<Rightarrow> handler x r')"

definition getenv_set :: "(string \<rightharpoonup> string) \<Rightarrow> string \<Rightarrow> bool" where
  "getenv_set env k = (case env k of None \<Rightarrow> False | Some v \<Rightarrow> v \<noteq> [])"

text \<open>
  \<^verbatim>\<open>
  def test_database():
      response = {
          "backend": "(check) Running",
          "database": "(cross) Not Available",
          "database_url": None,
          "database_name": None,
          "connection_status": "Not Connected",
          "collections": []
      }
      try:
          if db is not None:
              response["database"] = "(check) Available"
              response["database_url"] = "(check) Configured"
              response["database_name"] = db.name if hasattr(db, 'name') else "(check) Connected"
              response["connection_status"] = "Connected"
              try:
                  collections = db.list_collection_names()
                  response["collections"] = collections[:10]
                  response["database"] = "(check) Connected & Working"
              except Exception as e:
                  response["database"] = f"(warning)  Connected but Error: {str(e)[:50]}"
          else:
              response["database"] = "(warning)  Available but not initialized"
      except Exception as e:
          response["database"] = f"(cross) Error: {str(e)[:50]}"
      response["database_url"] = "(check) Set" if os.getenv("DATABASE_URL") else "(cross) Not Set"
      response["database_name"] = "(check) Set" if os.getenv("DATABASE_NAME") else "(cross) Not Set"
      return response
  \<close>
  In the source (check) is the code point U+2705, (cross) is U+274C and (warning) is
  U+26A0 U+FE0F.
\<close>

definition check_mark :: ustring where
  "check_mark = [0x2705]"

definition cross_mark :: ustring where
  "cross_mark = [0x274C]"

definition warning_sign :: ustring where
  "warning_sign = [0x26A0, 0xFE0F]"

definition initial_response :: response where
  "initial_response =
     \<lparr>backend = check_mark @ ascii '' Running'',
      database = cross_mark @ ascii '' Not Available'',
      database_url = None,
      database_name = None,
      connection_status = ascii ''Not Connected'',
      collections = []\<rparr>"

definition name_expr :: "db_handle \<Rightarrow> ustring + ustring" where
  "name_expr db =
     (case name_attr db of
        Missing \<Rightarrow> Inr (check_mark @ ascii '' Connected'')
      | Raises e \<Rightarrow> Inl e
      | Present n \<Rightarrow> Inr n)"

definition inner_try :: "db_handle \<Rightarrow> stmt" where
  "inner_try db =
     try_except
       (block
         [assign_expr (list_collection_names db) (\<lambda>colls r. r\<lparr>collections := take 10 colls\<rparr>),
          assign (\<lambda>r. r\<lparr>database := check_mark @ ascii '' Connected & Working''\<rparr>)])
       (\<lambda>e. assign (\<lambda>r. r\<lparr>database :=
          warning_sign @ ascii ''  Connected but Error: '' @ take 50 e\<rparr>))"

definition outer_try :: "db_handle option \<Rightarrow> stmt" where
  "outer_try db =
     try_except
       (case db of
          Some h \<Rightarrow>
            block
              [assign (\<lambda>r. r\<lparr>database := check_mark @ ascii '' Available''\<rparr>),
               assign (\<lambda>r. r\<lparr>database_url := Some (check_mark @ ascii '' Configured'')\<rparr>),
               assign_expr (name_expr h) (\<lambda>n r. r\<lparr>database_name := Some n\<rparr>),
               assign (\<lambda>r. r\<lparr>connection_status := ascii ''Connected''\<rparr>),
               inner_try h]
        | None \<Rightarrow>
            assign (\<lambda>r. r\<lparr>database :=
              warning_sign @ ascii ''  Available but not initialized''\<rparr>))
       (\<lambda>e. assign (\<lambda>r. r\<lparr>database := cross_mark @ ascii '' Error: '' @ take 50 e\<rparr>))"

definition test_database :: "db_handle option \<Rightarrow> (string \<rightharpoonup> string) \<Rightarrow> ustring + response" where
  "test_database db env =
     (case block
        [outer_try db,
         assign (\<lambda>r. r\<lparr>database_url := Some
           (if getenv_set env ''DATABASE_URL'' then check_mark @ ascii '' Set''
            else cross_mark @ ascii '' Not Set'')\<rparr>),
         assign (\<lambda>r. r\<lparr>database_name := Some
           (if getenv_set env ''DATABASE_NAME'' then check_mark @ ascii '' Set''
            else cross_mark @ ascii '' Not Set'')\<rparr>)]
        initial_response of
        (None, response) \<Rightarrow> Inr response
      | (Some e, _) \<Rightarrow> Inl e)"

section \<open>Notions the properties are stated with\<close>

text \<open>
  The rule of the spec for the date bounds, in its own words: both bounds given, the
  range is inclusive on both ends; one bound given, it is a one-sided inclusive bound;
  neither, no date constraint.
\<close>

definition within_bounds :: "date option \<Rightarrow> date option \<Rightarrow> date \<Rightarrow> bool" where
  "within_bounds start_date end_date x =
     (case (start_date, end_date) of
        (Some lo, Some hi) \<Rightarrow> lo \<le> x \<and> x \<le> hi
      | (Some lo, None) \<Rightarrow> lo \<le> x
      | (None, Some hi) \<Rightarrow> x \<le> hi
      | (None, None) \<Rightarrow> True)"

text \<open>
  A stored document is within the bounds when its date is; a document that holds no
  date is within the bounds only when there is none.
\<close>

definition doc_within :: "date option \<Rightarrow> date option \<Rightarrow> doc \<Rightarrow> bool" where
  "doc_within start_date end_date d =
     (case d ''date'' of
        Some (VDate x) \<Rightarrow> within_bounds start_date end_date x
      | _ \<Rightarrow> start_date = None \<and> end_date = None)"

text \<open>The arithmetic sum of the steps of the documents of one user.\<close>

definition steps_of :: "doc list \<Rightarrow> pyval \<Rightarrow> int" where
  "steps_of docs k = sum_list (map doc_steps (filter (\<lambda>d. doc_user d = k) docs))"

definition total_of :: "group_row list \<Rightarrow> pyval \<Rightarrow> int" where
  "total_of gs k = sum_list (map g_total_steps (filter (\<lambda>g. g_id g = k) gs))"

text \<open>
  A stored step-log entry: a document with an identifier, a user that is a string,
  steps that are an integer, and a date.
\<close>

definition is_steplog :: "doc \<Rightarrow> bool" where
  "is_steplog d =
     ((case d ''_id'' of Some (VObjectId h) \<Rightarrow> True | _ \<Rightarrow> False) \<and>
      (case d ''user'' of Some (VStr u) \<Rightarrow> True | _ \<Rightarrow> False) \<and>
      (case d ''steps'' of Some (VInt n) \<Rightarrow> True | _ \<Rightarrow> False) \<and>
      (case d ''date'' of Some (VDate x) \<Rightarrow> True | _ \<Rightarrow> False))"

text \<open>
  The document that the store holds for a submission: the payload's fields, the
  timestamps of the store's clock and the identifier with serial number \<open>n\<close>.
\<close>

definition stored_steplog :: "string \<Rightarrow> nat \<Rightarrow> StepLog \<Rightarrow> doc" where
  "stored_steplog now n entry =
     (model_dump entry)(''created_at'' \<mapsto> VDatetime now,
                        ''updated_at'' \<mapsto> VDatetime now,
                        ''_id'' \<mapsto> object_id n)"

text \<open>The store after a list of submissions, each made with \<open>add_steps\<close>.\<close>

fun add_all :: "store \<Rightarrow> StepLog list \<Rightarrow> store" where
  "add_all s [] = s"
| "add_all s (entry # entries) =
     (case add_steps (Some s) entry of
        Inl e \<Rightarrow> s
      | Inr (response, s') \<Rightarrow> add_all s' entries)"

text \<open>A stored document carries the identifier that the store gave it.\<close>

definition has_id :: "doc \<Rightarrow> bool" where
  "has_id d = (d ''_id'' \<noteq> None)"

text \<open>The values that the records of a result hold under one key.\<close>

definition field_values :: "string \<Rightarrow> doc list \<Rightarrow> pyval option list" where
  "field_values k rows = map (\<lambda>r. r k) rows"

section \<open>Example data\<close>

text \<open>
  The example of the spec: 5000 steps for alice on 2024-01-01 and 3000 steps for alice on
  2024-01-02; a third entry for bob.
\<close>

definition alice1 :: StepLog where
  "alice1 = \<lparr>sl_user = ''alice'', sl_steps = 5000, sl_date = (2024, 1, 1), sl_note = None\<rparr>"

definition alice2 :: StepLog where
  "alice2 = \<lparr>sl_user = ''alice'', sl_steps = 3000, sl_date = (2024, 1, 2), sl_note = Some ''run''\<rparr>"

definition bob1 :: StepLog where
  "bob1 = \<lparr>sl_user = ''bob'', sl_steps = 9000, sl_date = (2024, 1, 3), sl_note = None\<rparr>"

definition example_store :: store where
  "example_store = add_all (empty_store ''2024-01-03 08:00:00'') [alice1, alice2, bob1]"

text \<open>A further entry for alice on 2024-01-01, and two dictionaries that hold a key \<open>id\<close>.\<close>

definition alice3 :: StepLog where
  "alice3 = \<lparr>sl_user = ''alice'', sl_steps = 4000, sl_date = (2024, 1, 1), sl_note = None\<rparr>"

definition doc_with_both :: doc where
  "doc_with_both = [''_id'' \<mapsto> VObjectId ''65a1'', ''id'' \<mapsto> VStr ''x'']"

definition doc_with_id_only :: doc where
  "doc_with_id_only = [''id'' \<mapsto> VStr ''x'']"

text \<open>Fifty entries of 5000 steps for alice on 2024-01-01.\<close>

definition fifty_entries :: store where
  "fifty_entries = add_all (empty_store ''2024-01-03 08:00:00'') (replicate 50 alice1)"

text \<open>Eleven users, each with one entry on 2024-01-01.\<close>

definition eleven_entries :: "StepLog list" where
  "eleven_entries =
     map (\<lambda>(u, n). \<lparr>sl_user = u, sl_steps = n, sl_date = (2024, 1, 1), sl_note = None\<rparr>)
       [(''u01'', 1000), (''u02'', 2000), (''u03'', 3000), (''u04'', 4000), (''u05'', 5000),
        (''u06'', 6000), (''u07'', 7000), (''u08'', 8000), (''u09'', 9000), (''u10'', 10000),
        (''u11'', 11000)]"

definition eleven_users :: store where
  "eleven_users = add_all (empty_store ''2024-01-03 08:00:00'') eleven_entries"

section \<open>Properties of \<open>serialize_doc\<close>\<close>

lemma serialize_doc_no_id: "doc ''_id'' = None \<Longrightarrow> serialize_doc doc = doc"
  by (simp add: serialize_doc_def)

lemma serialize_doc_with_id:
  "doc ''_id'' = Some v \<Longrightarrow>
   serialize_doc doc = (doc(''_id'' := None))(''id'' \<mapsto> VStr (py_str v))"
  by (simp add: serialize_doc_def)

lemma serialize_doc_drops_id: "serialize_doc doc ''_id'' = None"
  by (cases "doc ''_id''") (simp_all add: serialize_doc_def)

lemma serialize_doc_other_keys:
  "k \<noteq> ''_id'' \<Longrightarrow> k \<noteq> ''id'' \<Longrightarrow> serialize_doc doc k = doc k"
  by (cases "doc ''_id''") (simp_all add: serialize_doc_def)

lemma serialize_doc_heap_value:
  "doc < length h \<Longrightarrow> serialize_doc_heap h doc = (length h, h @ [serialize_doc (h ! doc)])"
  by (cases "(h ! doc) ''_id''")
     (simp_all add: serialize_doc_heap_def dict_copy_def dict_pop_def dict_set_def
        serialize_doc_def nth_append)

section \<open>Grouping and sorting\<close>

lemma ids_add_group:
  "map g_id (add_group k n gs) = (if k \<in> set (map g_id gs) then map g_id gs else map g_id gs @ [k])"
  by (induction gs) auto

lemma distinct_add_group:
  "distinct (map g_id gs) \<Longrightarrow> distinct (map g_id (add_group k n gs))"
  by (simp add: ids_add_group)

lemma total_of_add_group:
  "total_of (add_group k n gs) k' = total_of gs k' + (if k' = k then n else 0)"
  by (induction gs) (auto simp: total_of_def)

lemma total_of_distinct:
  "distinct (map g_id gs) \<Longrightarrow> g \<in> set gs \<Longrightarrow> total_of gs (g_id g) = g_total_steps g"
proof (induction gs)
  case Nil
  then show ?case by simp
next
  case (Cons a gs)
  have "g_id h \<noteq> g_id a" if "h \<in> set gs" for h
    using Cons.prems(1) that by (metis distinct.simps(2) image_eqI list.simps(9) set_map)
  then have none: "filter (\<lambda>h. g_id h = g_id a) gs = []"
    by (simp add: filter_empty_conv)
  show ?case
  proof (cases "g = a")
    case True
    then show ?thesis by (simp add: total_of_def none)
  next
    case False
    then have "g \<in> set gs" using Cons.prems(2) by simp
    moreover have "g_id a \<noteq> g_id g" using Cons.prems(1) \<open>g \<in> set gs\<close> by auto
    ultimately show ?thesis using Cons by (simp add: total_of_def)
  qed
qed

lemma ids_set_add_group: "g_id ` set (add_group k n gs) = insert k (g_id ` set gs)"
  by (induction gs) auto

lemma ids_foldl_group:
  "g_id ` set (foldl (\<lambda>groups d. add_group (doc_user d) (doc_steps d) groups) acc docs) =
   g_id ` set acc \<union> doc_user ` set docs"
  by (induction docs arbitrary: acc) (simp_all add: ids_set_add_group)

lemma distinct_foldl_group:
  "distinct (map g_id acc) \<Longrightarrow>
   distinct (map g_id (foldl (\<lambda>groups d. add_group (doc_user d) (doc_steps d) groups) acc docs))"
  by (induction docs arbitrary: acc) (simp_all add: distinct_add_group)

lemma total_of_foldl_group:
  "total_of (foldl (\<lambda>groups d. add_group (doc_user d) (doc_steps d) groups) acc docs) k =
   total_of acc k + steps_of docs k"
  by (induction docs arbitrary: acc) (auto simp: total_of_add_group steps_of_def)

lemma stage_group_ids: "g_id ` set (stage_group docs) = doc_user ` set docs"
  by (simp add: stage_group_def ids_foldl_group)

lemma stage_group_distinct: "distinct (map g_id (stage_group docs))"
  by (simp add: stage_group_def distinct_foldl_group)

lemma stage_group_total:
  assumes "g \<in> set (stage_group docs)"
  shows "g_total_steps g = steps_of docs (g_id g)"
proof -
  have "total_of (stage_group docs) (g_id g) = g_total_steps g"
    using assms by (rule total_of_distinct[OF stage_group_distinct])
  moreover have "total_of (stage_group docs) (g_id g) = steps_of docs (g_id g)"
    unfolding stage_group_def total_of_foldl_group by (simp add: total_of_def)
  ultimately show ?thesis by simp
qed

lemma distinct_map_insort_key:
  "distinct (map f (insort_key h x xs)) = (f x \<notin> f ` set xs \<and> distinct (map f xs))"
  by (induction xs) (auto simp: set_insort_key)

lemma distinct_map_sort_key: "distinct (map f (sort_key h xs)) = distinct (map f xs)"
  by (induction xs) (simp_all add: distinct_map_insort_key)

lemma stage_sort_set: "set (stage_sort gs) = set gs"
  by (simp add: stage_sort_def)

lemma stage_sort_length: "length (stage_sort gs) = length gs"
  by (simp add: stage_sort_def)

lemma stage_sort_distinct: "distinct (map g_id (stage_sort gs)) = distinct (map g_id gs)"
  by (simp add: stage_sort_def distinct_map_sort_key)

lemma stage_sort_sorted:
  "sorted_wrt (\<lambda>a b. g_total_steps b \<le> g_total_steps a) (stage_sort gs)"
proof -
  have "sorted (map (\<lambda>g. - g_total_steps g) (stage_sort gs))"
    unfolding stage_sort_def by (rule sorted_sort_key)
  then show ?thesis by (simp add: sorted_map)
qed

section \<open>What \<open>leaderboard\<close> computes\<close>

lemma make_row_Inr:
  "make_row r = Inr row \<Longrightarrow>
   py_int (r_total_steps r) = Inr (total_steps row) \<and> r_user r = VStr (user row)"
  by (auto simp: make_row_def split: sum.splits pyval.splits)

lemma make_rows_Inr:
  "make_rows rs = Inr rows \<Longrightarrow>
   list_all2 (\<lambda>r row. py_int (r_total_steps r) = Inr (total_steps row) \<and> r_user r = VStr (user row))
     rs rows"
proof (induction rs arbitrary: rows)
  case Nil
  then show ?case by simp
next
  case (Cons r rs)
  from Cons.prems obtain row rows' where
    "make_row r = Inr row" "make_rows rs = Inr rows'" "rows = row # rows'"
    by (auto split: sum.splits)
  then show ?case using Cons.IH[of rows'] make_row_Inr[of r row] by simp
qed

lemma leaderboard_match_within:
  "(case leaderboard_match start_date end_date of None \<Rightarrow> True | Some r \<Rightarrow> date_matches r d) =
   doc_within start_date end_date d"
  by (cases start_date; cases end_date; cases "d ''date''")
     (auto simp: leaderboard_match_def date_matches_def doc_within_def in_range_def
        within_bounds_def split: pyval.splits)

lemma leaderboard_match_None:
  "(leaderboard_match start_date end_date = None) = (start_date = None \<and> end_date = None)"
  by (cases start_date; cases end_date) (simp_all add: leaderboard_match_def)

lemma aggregate_Inr:
  "aggregate docs match_stage limit = Inr results \<Longrightarrow>
   match_stage = None \<and> 0 < limit \<and>
   results = stage_project (take (nat limit) (stage_sort (stage_group docs)))"
  by (cases match_stage) (auto simp: aggregate_def stage_limit_def Let_def split: if_splits)

lemma leaderboard_Inr:
  assumes "leaderboard (Some s) start_date end_date limit_param = Inr rows"
  defines "limit \<equiv> (case limit_param of None \<Rightarrow> 10 | Some n \<Rightarrow> n)"
  defines "kept \<equiv> take (nat limit) (stage_sort (stage_group (contents s ''steplog'')))"
  shows "0 < limit" and "map g_id kept = map (\<lambda>row. VStr (user row)) rows"
    and "map g_total_steps kept = map total_steps rows"
    and "list_all2 (\<lambda>g row. g_total_steps g = total_steps row \<and> g_id g = VStr (user row))
      kept rows"
    and "start_date = None \<and> end_date = None"
proof -
  from assms(1) obtain results where
    agg: "aggregate (contents s ''steplog'') (leaderboard_match start_date end_date) limit = Inr results"
    and mk: "make_rows results = Inr rows"
    by (auto simp: leaderboard_def limit_def Let_def split: sum.splits)
  from aggregate_Inr[OF agg] have none: "leaderboard_match start_date end_date = None"
    and pos: "0 < limit" and res: "results = stage_project kept"
    by (simp_all add: kept_def)
  show "0 < limit" by (rule pos)
  show "start_date = None \<and> end_date = None"
    using none by (simp add: leaderboard_match_None)
  have rel: "list_all2 (\<lambda>r row. py_int (r_total_steps r) = Inr (total_steps row) \<and>
      r_user r = VStr (user row)) (stage_project kept) rows"
    using make_rows_Inr[OF mk] res by simp
  then show all2: "list_all2 (\<lambda>g row. g_total_steps g = total_steps row \<and> g_id g = VStr (user row))
      kept rows"
    by (simp add: stage_project_def list_all2_map1)
  then show "map g_id kept = map (\<lambda>row. VStr (user row)) rows"
    and "map g_total_steps kept = map total_steps rows"
    by (induction kept rows rule: list_all2_induct) simp_all
qed

lemma leaderboard_date_bound:
  assumes "start_date \<noteq> None \<or> end_date \<noteq> None"
  shows "leaderboard (Some s) start_date end_date limit_param =
    Inl (InvalidDocument ''cannot encode object: datetime.date'')"
proof -
  obtain r where "leaderboard_match start_date end_date = Some r"
    using assms leaderboard_match_None[of start_date end_date] by (cases "leaderboard_match start_date end_date") auto
  then show ?thesis
    by (simp add: leaderboard_def aggregate_def)
qed

lemma sorted_take_drop:
  "sorted_wrt P xs \<Longrightarrow> x \<in> set (take n xs) \<Longrightarrow> y \<in> set (drop n xs) \<Longrightarrow> P x y"
  using sorted_wrt_append[of P "take n xs" "drop n xs"] by simp

lemma make_rows_total:
  "(\<And>r. r \<in> set rs \<Longrightarrow> \<exists>u n. r_user r = VStr u \<and> r_total_steps r = NInt n) \<Longrightarrow>
   \<exists>rows. make_rows rs = Inr rows"
proof (induction rs)
  case Nil
  then show ?case by simp
next
  case (Cons r rs)
  then obtain rows where "make_rows rs = Inr rows" by auto
  moreover obtain u n where "r_user r = VStr u" "r_total_steps r = NInt n"
    using Cons.prems[of r] by auto
  ultimately show ?case by (simp add: make_row_def)
qed

lemma is_steplog_user: "is_steplog d \<Longrightarrow> \<exists>u. doc_user d = VStr u"
  by (auto simp: is_steplog_def doc_user_def split: option.splits pyval.splits)

lemma leaderboard_returns:
  assumes wf: "list_all is_steplog (contents s ''steplog'')"
    and pos: "0 < (case limit_param of None \<Rightarrow> 10 | Some n \<Rightarrow> n)"
  shows "\<exists>rows. leaderboard (Some s) None None limit_param = Inr rows"
proof -
  define limit where "limit = (case limit_param of None \<Rightarrow> 10 | Some n \<Rightarrow> n)"
  define selected where "selected = contents s ''steplog''"
  define kept where "kept = take (nat limit) (stage_sort (stage_group selected))"
  have agg: "aggregate (contents s ''steplog'') (leaderboard_match None None) limit =
      Inr (stage_project kept)"
    using pos by (simp add: aggregate_def leaderboard_match_def stage_limit_def kept_def
        selected_def limit_def)
  have "\<exists>u n. r_user r = VStr u \<and> r_total_steps r = NInt n" if "r \<in> set (stage_project kept)" for r
  proof -
    from that obtain g where g: "g \<in> set kept" and r: "r = \<lparr>r_user = g_id g, r_total_steps = NInt (g_total_steps g)\<rparr>"
      by (auto simp: stage_project_def)
    from g have "g \<in> set (stage_group selected)"
      by (auto simp: kept_def stage_sort_set dest: in_set_takeD)
    then have "g_id g \<in> doc_user ` set selected"
      using stage_group_ids[of selected] by blast
    then obtain d where "d \<in> set (contents s ''steplog'')" "g_id g = doc_user d"
      by (auto simp: selected_def)
    then obtain u where "g_id g = VStr u"
      using wf is_steplog_user[of d] by (auto simp: list_all_iff)
    then show ?thesis by (simp add: r)
  qed
  then obtain rows where "make_rows (stage_project kept) = Inr rows"
    using make_rows_total by blast
  then show ?thesis
    using agg by (simp add: leaderboard_def limit_def)
qed

section \<open>What the store holds after submissions\<close>

lemma create_document_steplog:
  "create_document s ''steplog'' (model_dump entry) =
     (str_nat (issued s),
      s\<lparr>contents := (contents s)(''steplog'' :=
           contents s ''steplog'' @ [stored_steplog (clock s) (issued s) entry]),
        issued := Suc (issued s)\<rparr>)"
  by (simp add: create_document_def stored_steplog_def object_id_def Let_def)

lemma add_steps_Some:
  "add_steps (Some s) entry =
     Inr ([''id'' \<mapsto> VStr (str_nat (issued s))],
          s\<lparr>contents := (contents s)(''steplog'' :=
               contents s ''steplog'' @ [stored_steplog (clock s) (issued s) entry]),
            issued := Suc (issued s)\<rparr>)"
  by (simp add: add_steps_def create_document_steplog)

lemma add_all_issued: "issued (add_all s entries) = issued s + length entries"
  by (induction entries arbitrary: s) (simp_all add: add_steps_Some)

lemma add_all_clock: "clock (add_all s entries) = clock s"
  by (induction entries arbitrary: s) (simp_all add: add_steps_Some)

lemma add_all_contents:
  "contents (add_all s entries) ''steplog'' =
     contents s ''steplog'' @
     map (\<lambda>(n, entry). stored_steplog (clock s) n entry)
       (zip [issued s..<issued s + length entries] entries)"
proof (induction entries arbitrary: s)
  case Nil
  then show ?case by simp
next
  case (Cons entry entries)
  have "[issued s..<issued s + length (entry # entries)] =
      issued s # [Suc (issued s)..<Suc (issued s) + length entries]"
    by (simp add: upt_rec)
  then show ?case
    by (simp add: add_steps_Some Cons.IH)
qed

lemma stored_steplog_fields:
  "stored_steplog now n entry ''_id'' = Some (object_id n)"
  "stored_steplog now n entry ''user'' = Some (VStr (sl_user entry))"
  "stored_steplog now n entry ''steps'' = Some (VInt (sl_steps entry))"
  "stored_steplog now n entry ''date'' = Some (VDate (sl_date entry))"
  "stored_steplog now n entry ''note'' =
     Some (case sl_note entry of None \<Rightarrow> VNone | Some t \<Rightarrow> VStr t)"
  "stored_steplog now n entry ''created_at'' = Some (VDatetime now)"
  "stored_steplog now n entry ''updated_at'' = Some (VDatetime now)"
  "stored_steplog now n entry ''id'' = None"
  by (simp_all add: stored_steplog_def model_dump_def)

lemma stored_steplog_user: "doc_user (stored_steplog now n entry) = VStr (sl_user entry)"
  by (simp add: doc_user_def stored_steplog_fields)

lemma stored_steplog_steps: "doc_steps (stored_steplog now n entry) = sl_steps entry"
  by (simp add: doc_steps_def stored_steplog_fields)

lemma stored_steplog_is_steplog: "is_steplog (stored_steplog now n entry)"
  by (simp add: is_steplog_def stored_steplog_fields object_id_def)

lemma stored_steplog_within:
  "doc_within start_date end_date (stored_steplog now n entry) =
   within_bounds start_date end_date (sl_date entry)"
  by (simp add: doc_within_def stored_steplog_fields)

lemma stage_group_pairs:
  "stage_group docs =
   foldl (\<lambda>groups (k, n). add_group k n groups) [] (map (\<lambda>d. (doc_user d, doc_steps d)) docs)"
  by (simp add: stage_group_def foldl_map)

lemma steps_of_pairs:
  "steps_of docs k =
   sum_list (map snd (filter (\<lambda>p. fst p = k) (map (\<lambda>d. (doc_user d, doc_steps d)) docs)))"
  by (simp add: steps_of_def filter_map comp_def)

lemma add_all_pairs:
  "map (\<lambda>d. (doc_user d, doc_steps d)) (contents (add_all s entries) ''steplog'') =
   map (\<lambda>d. (doc_user d, doc_steps d)) (contents s ''steplog'') @
   map (\<lambda>entry. (VStr (sl_user entry), sl_steps entry)) entries"
proof -
  have "map (\<lambda>d. (doc_user d, doc_steps d))
      (map (\<lambda>(n, entry). stored_steplog now n entry) zs) =
    map (\<lambda>entry. (VStr (sl_user entry), sl_steps entry)) (map snd zs)" for now zs
    by (induction zs) (auto simp: stored_steplog_user stored_steplog_steps)
  then show ?thesis
    by (simp add: add_all_contents del: map_map)
qed

lemma add_all_is_steplog:
  "list_all is_steplog (contents s ''steplog'') \<Longrightarrow>
   list_all is_steplog (contents (add_all s entries) ''steplog'')"
  by (auto simp: add_all_contents list_all_iff stored_steplog_is_steplog)

lemma eleven_pairs:
  "map (\<lambda>d. (doc_user d, doc_steps d)) (contents eleven_users ''steplog'') =
     [(VStr ''u01'', 1000), (VStr ''u02'', 2000), (VStr ''u03'', 3000), (VStr ''u04'', 4000),
      (VStr ''u05'', 5000), (VStr ''u06'', 6000), (VStr ''u07'', 7000), (VStr ''u08'', 8000),
      (VStr ''u09'', 9000), (VStr ''u10'', 10000), (VStr ''u11'', 11000)]"
  unfolding eleven_users_def add_all_pairs by (simp add: eleven_entries_def empty_store_def)

lemma py_int_truncates:
  assumes "py_int x = Inr n"
  shows "(case x of
      NInt i \<Rightarrow> n = i
    | NFloat q \<Rightarrow> \<bar>rat_of_int n\<bar> \<le> \<bar>q\<bar> \<and> \<bar>q - rat_of_int n\<bar> < 1
    | _ \<Rightarrow> False)"
proof (cases x)
  case (NInt i)
  then show ?thesis using assms by simp
next
  case (NFloat q)
  show ?thesis
  proof (cases "q < 0")
    case True
    then have n: "n = \<lceil>q\<rceil>" using NFloat assms by simp
    have "q \<le> of_int \<lceil>q\<rceil>" "of_int \<lceil>q\<rceil> < q + 1"
      by linarith+
    moreover have "rat_of_int \<lceil>q\<rceil> \<le> 0"
      using True by (simp add: ceiling_le_zero)
    ultimately show ?thesis using NFloat True n by simp
  next
    case False
    then have n: "n = \<lfloor>q\<rfloor>" using NFloat assms by simp
    have "of_int \<lfloor>q\<rfloor> \<le> q" "q < of_int \<lfloor>q\<rfloor> + 1"
      by linarith+
    moreover have "0 \<le> rat_of_int \<lfloor>q\<rfloor>"
      using False by simp
    ultimately show ?thesis using NFloat False n by simp
  qed
next
  case NInf
  then show ?thesis using assms by simp
next
  case NNaN
  then show ?thesis using assms by simp
qed

lemma list_steps_query_user:
  "q_user (list_steps_query usr start_date end_date) =
   (if usr \<noteq> None \<and> usr \<noteq> Some [] then usr else None)"
  by (simp add: list_steps_query_def Let_def)

lemma list_steps_query_date:
  "q_date (list_steps_query usr start_date end_date) = leaderboard_match start_date end_date"
  by (simp add: list_steps_query_def leaderboard_match_def Let_def)

lemma list_steps_query_matches:
  "matches (list_steps_query usr start_date end_date) d =
   ((case usr of None \<Rightarrow> True | Some u \<Rightarrow> u = [] \<or> d ''user'' = Some (VStr u)) \<and>
    doc_within start_date end_date d)"
proof -
  have "(case q_user (list_steps_query usr start_date end_date) of
          None \<Rightarrow> True | Some u \<Rightarrow> d ''user'' = Some (VStr u)) =
        (case usr of None \<Rightarrow> True | Some u \<Rightarrow> u = [] \<or> d ''user'' = Some (VStr u))"
    by (cases usr) (auto simp: list_steps_query_user)
  then show ?thesis
    unfolding matches_def list_steps_query_date leaderboard_match_within by simp
qed

lemma example_contents:
  "contents example_store ''steplog'' =
     [stored_steplog ''2024-01-03 08:00:00'' 0 alice1,
      stored_steplog ''2024-01-03 08:00:00'' 1 alice2,
      stored_steplog ''2024-01-03 08:00:00'' 2 bob1]"
  unfolding example_store_def add_all_contents
  by (simp add: empty_store_def upt_rec[of 0] upt_rec[of "Suc 0"] upt_rec[of 1] upt_rec[of 2]
      upt_rec[of 3] numeral_2_eq_2 numeral_3_eq_3)

lemma str_nat_digit: "n < 10 \<Longrightarrow> str_nat n = [digit_char n]"
  by (subst str_nat.simps) simp

lemma list_steps_Some:
  "list_steps (Some s) usr start_date end_date limit_param =
   Inr (map serialize_doc
     (take (nat (case limit_param of None \<Rightarrow> 50 | Some n \<Rightarrow> n))
        (filter (\<lambda>d. (case usr of None \<Rightarrow> True | Some u \<Rightarrow> u = [] \<or> d ''user'' = Some (VStr u)) \<and>
                      doc_within start_date end_date d)
           (contents s ''steplog''))))"
proof -
  have "matches (list_steps_query usr start_date end_date) =
      (\<lambda>d. (case usr of None \<Rightarrow> True | Some u \<Rightarrow> u = [] \<or> d ''user'' = Some (VStr u)) \<and>
            doc_within start_date end_date d)"
    by (rule ext) (rule list_steps_query_matches)
  then show ?thesis
    by (simp add: list_steps_def get_documents_def Let_def)
qed

lemma example_has_ids: "list_all has_id (contents example_store ''steplog'')"
  by (simp add: example_contents has_id_def stored_steplog_fields)

lemma example_alice_day2:
  "list_steps (Some example_store) (Some ''alice'') (Some (2024, 1, 2)) (Some (2024, 1, 2)) None =
     Inr [serialize_doc (stored_steplog ''2024-01-03 08:00:00'' 1 alice2)]"
  by (simp add: list_steps_Some example_contents stored_steplog_fields stored_steplog_within
      within_bounds_def alice1_def alice2_def bob1_def)

lemma digit_char_inj: "a < 10 \<Longrightarrow> b < 10 \<Longrightarrow> digit_char a = digit_char b \<Longrightarrow> a = b"
  unfolding digit_char_def
  using nth_eq_iff_index_eq[of "''0123456789''" a b] by simp

lemma str_nat_nonempty: "str_nat n \<noteq> []"
  by (subst str_nat.simps) simp

lemma str_nat_length: "(length (str_nat n) = Suc 0) = (n < 10)"
proof (cases "n < 10")
  case True
  then show ?thesis by (simp add: str_nat_digit)
next
  case False
  have "length (str_nat n) = Suc (length (str_nat (n div 10)))"
    using False by (subst str_nat.simps) simp
  moreover have "length (str_nat (n div 10)) \<noteq> 0"
    using str_nat_nonempty by simp
  ultimately show ?thesis using False by simp
qed

lemma str_nat_inj: "str_nat n = str_nat m \<Longrightarrow> n = m"
proof (induction n arbitrary: m rule: str_nat.induct)
  case (1 n)
  show ?case
  proof (cases "n < 10")
    case True
    then have "length (str_nat m) = Suc 0"
      using "1.prems" str_nat_length[of n] by simp
    then have "m < 10" by (simp add: str_nat_length)
    then show ?thesis
      using True "1.prems" by (simp add: str_nat_digit digit_char_inj)
  next
    case False
    then have "length (str_nat m) \<noteq> Suc 0"
      using "1.prems" str_nat_length[of n] by simp
    then have m: "\<not> m < 10" by (simp add: str_nat_length)
    have "str_nat (n div 10) @ [digit_char (n mod 10)] =
        str_nat (m div 10) @ [digit_char (m mod 10)]"
      using "1.prems" False m str_nat.simps[of n] str_nat.simps[of m] by simp
    then have "str_nat (n div 10) = str_nat (m div 10)"
      and "digit_char (n mod 10) = digit_char (m mod 10)"
      by simp_all
    then have "n div 10 = m div 10" and "n mod 10 = m mod 10"
      using "1.IH"[OF False] by (simp_all add: digit_char_inj)
    then show ?thesis
      by (metis div_mult_mod_eq)
  qed
qed

lemma issued_ids_str: "issued_ids s = map str_nat [0..<issued s]"
  by (simp add: issued_ids_def object_id_def)

lemma fresh_id: "str_nat (issued s) \<notin> set (issued_ids s)"
  by (auto simp: issued_ids_str dest: str_nat_inj)

lemma doc_within_day:
  "doc_within (Some x) (Some x) d = (d ''date'' = Some (VDate x))"
  by (cases "d ''date''") (auto simp: doc_within_def within_bounds_def split: pyval.splits)

lemma example_issued: "issued example_store = 3" "clock example_store = ''2024-01-03 08:00:00''"
  unfolding example_store_def add_all_issued add_all_clock by (simp_all add: empty_store_def)

lemma str_nat_3: "str_nat 3 = ''3''"
  by (simp add: str_nat_digit digit_char_def)

lemma stored_serialized:
  "serialize_doc (stored_steplog now n entry) ''id'' = Some (VStr (str_nat n))"
  "serialize_doc (stored_steplog now n entry) ''steps'' = Some (VInt (sl_steps entry))"
  by (simp_all add: serialize_doc_def stored_steplog_fields object_id_def)

lemma example_add_alice3:
  "add_steps (Some example_store) alice3 = Inr ([''id'' \<mapsto> VStr ''3''], add_all example_store [alice3])"
  by (simp add: add_steps_Some example_issued str_nat_3)

lemma example_after_contents:
  "contents (add_all example_store [alice3]) ''steplog'' =
     [stored_steplog ''2024-01-03 08:00:00'' 0 alice1,
      stored_steplog ''2024-01-03 08:00:00'' 1 alice2,
      stored_steplog ''2024-01-03 08:00:00'' 2 bob1,
      stored_steplog ''2024-01-03 08:00:00'' 3 alice3]"
  unfolding add_all_contents by (simp add: example_contents example_issued)

lemma stored_zip_replicate:
  "map (\<lambda>(n, entry). stored_steplog now n entry) (zip ns (replicate (length ns) e)) =
   map (\<lambda>n. stored_steplog now n e) ns"
  by (induction ns) simp_all

lemma fifty_contents:
  "contents fifty_entries ''steplog'' =
   map (\<lambda>n. stored_steplog ''2024-01-03 08:00:00'' n alice1) [0..<50]"
proof -
  have "contents fifty_entries ''steplog'' =
      map (\<lambda>(n, entry). stored_steplog ''2024-01-03 08:00:00'' n entry)
        (zip [0..<50] (replicate (length [0..<50]) alice1))"
    unfolding fifty_entries_def add_all_contents by (simp add: empty_store_def)
  then show ?thesis
    by (simp only: stored_zip_replicate)
qed

lemma fifty_issued: "issued fifty_entries = 50" "clock fifty_entries = ''2024-01-03 08:00:00''"
  unfolding fifty_entries_def add_all_issued add_all_clock by (simp_all add: empty_store_def)

lemma fifty_after_contents:
  "contents (add_all fifty_entries [alice3]) ''steplog'' =
   contents fifty_entries ''steplog'' @ [stored_steplog ''2024-01-03 08:00:00'' 50 alice3]"
  unfolding add_all_contents by (simp add: fifty_issued)

lemma str_nat_50: "str_nat 50 = ''50''"
  by (subst str_nat.simps) (simp add: str_nat_digit digit_char_def)

lemma fifty_add_alice3:
  "add_steps (Some fifty_entries) alice3 =
     Inr ([''id'' \<mapsto> VStr ''50''], add_all fifty_entries [alice3])"
  by (simp add: add_steps_Some fifty_issued str_nat_50)

lemma fifty_listed:
  "list_steps (Some (add_all fifty_entries [alice3])) (Some ''alice'') (Some (2024, 1, 1))
     (Some (2024, 1, 1)) None =
   Inr (map serialize_doc (contents fifty_entries ''steplog''))"
proof -
  define P where "P = (\<lambda>d. (case Some ''alice'' of None \<Rightarrow> True
      | Some u \<Rightarrow> u = [] \<or> d ''user'' = Some (VStr u)) \<and>
      doc_within (Some (2024, 1, 1)) (Some (2024, 1, 1)) d)"
  have ls: "list_steps (Some (add_all fifty_entries [alice3])) (Some ''alice'') (Some (2024, 1, 1))
     (Some (2024, 1, 1)) None =
     Inr (map serialize_doc (take (nat (case None :: int option of None \<Rightarrow> 50 | Some n \<Rightarrow> n))
       (filter P (contents (add_all fifty_entries [alice3]) ''steplog''))))"
    unfolding P_def by (rule list_steps_Some)
  have old: "P d" if "d \<in> set (contents fifty_entries ''steplog'')" for d
    using that by (auto simp: P_def fifty_contents stored_steplog_fields doc_within_day alice1_def)
  have new: "P (stored_steplog ''2024-01-03 08:00:00'' 50 alice3)"
    by (simp add: P_def stored_steplog_fields doc_within_day alice3_def)
  have "filter P (contents fifty_entries ''steplog'') = contents fifty_entries ''steplog''"
    using old by (simp add: filter_id_conv)
  then have "filter P (contents (add_all fifty_entries [alice3]) ''steplog'') =
      contents fifty_entries ''steplog'' @ [stored_steplog ''2024-01-03 08:00:00'' 50 alice3]"
    using new unfolding fifty_after_contents by simp
  moreover have "length (contents fifty_entries ''steplog'') = 50"
    by (simp add: fifty_contents)
  ultimately have "take (nat (case None :: int option of None \<Rightarrow> 50 | Some n \<Rightarrow> n))
       (filter P (contents (add_all fifty_entries [alice3]) ''steplog'')) =
      contents fifty_entries ''steplog''"
    by simp
  then show ?thesis
    using ls by (simp only:)
qed

section \<open>The store handle is checked first\<close>

text \<open>
  Claim C3. When the store handle is absent, each of the four data operations (create
  step log, list step logs, leaderboard, create user) fails with the same
  configuration error, HTTP 500 with the detail "Database not configured". The result is
  the error alone: no store is read or written, and no part of a result is returned.
\<close>

theorem store_not_configured:
  "add_steps None entry = Inl (HTTPException 500 ''Database not configured'') \<and>
   list_steps None usr start_date end_date limit_param =
     Inl (HTTPException 500 ''Database not configured'') \<and>
   leaderboard None start_date' end_date' limit_param' =
     Inl (HTTPException 500 ''Database not configured'') \<and>
   create_user None payload = Inl (HTTPException 500 ''Database not configured'')"
  by (simp add: add_steps_def list_steps_def leaderboard_def create_user_def)

section \<open>The filter of \<open>list_steps\<close>\<close>

lemma list_steps_query_empty_user:
  "list_steps_query (Some []) start_date end_date = list_steps_query None start_date end_date"
  by (simp add: list_steps_query_def)

text \<open>
  Claim C8. A request to list step logs whose \<open>user\<close> parameter is the empty string
  gets the result of the same request without the parameter: the empty string adds no
  user constraint.
\<close>

theorem list_steps_empty_user:
  "list_steps db (Some []) start_date end_date limit_param =
   list_steps db None start_date end_date limit_param"
  unfolding list_steps_def list_steps_query_empty_user ..

section \<open>The diagnostics endpoint returns\<close>

text \<open>
  Claim C7. For every state of the store handle, every outcome of the look-up of its
  name and every outcome of \<open>list_collection_names()\<close>, \<open>test_database\<close> returns a
  payload. An exception of the introspection is in the payload's \<open>database\<close> text, cut
  to its first 50 characters; the payload lists the first 10 collection names when the
  query succeeds, and never more than 10.
\<close>

theorem test_database_never_fails:
  "\<exists>r. test_database db env = Inr r \<and>
     length (collections r) \<le> 10 \<and>
     collections r =
       (case db of
          None \<Rightarrow> []
        | Some h \<Rightarrow>
            (case name_expr h of
               Inl e \<Rightarrow> []
             | Inr n \<Rightarrow> (case list_collection_names h of Inl e \<Rightarrow> [] | Inr cs \<Rightarrow> take 10 cs))) \<and>
     database r =
       (case db of
          None \<Rightarrow> warning_sign @ ascii ''  Available but not initialized''
        | Some h \<Rightarrow>
            (case name_expr h of
               Inl e \<Rightarrow> cross_mark @ ascii '' Error: '' @ take 50 e
             | Inr n \<Rightarrow>
                 (case list_collection_names h of
                    Inl e \<Rightarrow> warning_sign @ ascii ''  Connected but Error: '' @ take 50 e
                  | Inr cs \<Rightarrow> check_mark @ ascii '' Connected & Working'')))"
  by (cases db; cases "name_expr (the db)"; cases "list_collection_names (the db)")
     (simp_all add: test_database_def outer_try_def inner_try_def try_except_def
        assign_expr_def assign_def initial_response_def)

section \<open>The leaderboard: limit and order\<close>

text \<open>
  Claim C5. Whenever the leaderboard returns rows, their number does not exceed the
  requested limit (10 when the request gives none), and the rows are in descending order
  of \<open>total_steps\<close>.
\<close>

theorem leaderboard_limit_sorted:
  assumes "leaderboard db start_date end_date limit_param = Inr rows"
  shows "int (length rows) \<le> (case limit_param of None \<Rightarrow> 10 | Some n \<Rightarrow> n) \<and>
         sorted_wrt (\<lambda>a b. total_steps b \<le> total_steps a) rows"
proof -
  obtain s where db: "db = Some s"
    using assms by (cases db) (simp_all add: leaderboard_def)
  define limit where "limit = (case limit_param of None \<Rightarrow> 10 | Some n \<Rightarrow> n)"
  define kept where "kept = take (nat limit) (stage_sort (stage_group (contents s ''steplog'')))"
  note facts = leaderboard_Inr[OF assms[unfolded db], folded limit_def, folded kept_def]
  have "length rows = length kept"
    using facts(3) by (metis length_map)
  moreover have "length kept \<le> nat limit"
    by (simp add: kept_def)
  ultimately have "int (length rows) \<le> limit"
    using facts(1) by simp
  moreover have "sorted_wrt (\<lambda>a b. g_total_steps b \<le> g_total_steps a) kept"
    unfolding kept_def by (intro sorted_wrt_take stage_sort_sorted)
  then have "sorted_wrt (\<lambda>a b. b \<le> a) (map g_total_steps kept)"
    by (simp add: sorted_wrt_map)
  then have "sorted_wrt (\<lambda>a b. total_steps b \<le> total_steps a) rows"
    by (simp add: facts(3) sorted_wrt_map)
  ultimately show ?thesis by (simp add: limit_def)
qed

theorem leaderboard_limit_sorted_witness:
  "leaderboard (Some example_store) None None (Some 2) =
     Inr [\<lparr>user = ''bob'', total_steps = 9000\<rparr>, \<lparr>user = ''alice'', total_steps = 8000\<rparr>] \<and>
   int (length [\<lparr>user = ''bob'', total_steps = 9000\<rparr>, \<lparr>user = ''alice'', total_steps = 8000\<rparr>]) \<le> 2 \<and>
   sorted_wrt (\<lambda>a b. total_steps b \<le> total_steps a)
     [\<lparr>user = ''bob'', total_steps = 9000\<rparr>, \<lparr>user = ''alice'', total_steps = 8000\<rparr>]"
proof -
  have ev: "leaderboard (Some example_store) None None (Some 2) =
     Inr [\<lparr>user = ''bob'', total_steps = 9000\<rparr>, \<lparr>user = ''alice'', total_steps = 8000\<rparr>]"
    by code_simp
  from leaderboard_limit_sorted[OF ev] ev show ?thesis by simp
qed

section \<open>The leaderboard: rows and totals\<close>

text \<open>
  Claim C1, as amended. For a store whose step-log collection holds step-log entries, a
  request without date bounds and a positive limit, the leaderboard returns rows; the
  rows are for distinct users; each row is for a user with at least one stored entry, and
  its \<open>total_steps\<close> is the arithmetic sum of the steps of that user's entries (so a
  user with no entry has no row); the number of rows is the smaller of the limit and the
  number of users with an entry; and a user with an entry has a row, unless the result
  is full and the user's total is no greater than any total returned. With no date bound
  every stored entry is within the bounds. What a request with a date bound gets is not
  part of this statement.
\<close>

theorem leaderboard_totals:
  assumes wf: "list_all is_steplog (contents s ''steplog'')"
    and pos: "0 < (case limit_param of None \<Rightarrow> 10 | Some n \<Rightarrow> n)"
  shows "\<exists>rows. leaderboard (Some s) None None limit_param = Inr rows \<and>
    distinct (map user rows) \<and>
    (\<forall>row \<in> set rows.
       (\<exists>d \<in> set (contents s ''steplog''). doc_user d = VStr (user row)) \<and>
       total_steps row = steps_of (contents s ''steplog'') (VStr (user row))) \<and>
    length rows =
      min (nat (case limit_param of None \<Rightarrow> 10 | Some n \<Rightarrow> n))
          (card (doc_user ` set (contents s ''steplog''))) \<and>
    (\<forall>d \<in> set (contents s ''steplog'').
       (\<exists>row \<in> set rows. doc_user d = VStr (user row)) \<or>
       (length rows = nat (case limit_param of None \<Rightarrow> 10 | Some n \<Rightarrow> n) \<and>
        (\<forall>row \<in> set rows.
           steps_of (contents s ''steplog'') (doc_user d) \<le> total_steps row)))"
proof -
  define limit where "limit = (case limit_param of None \<Rightarrow> 10 | Some n \<Rightarrow> n)"
  define selected where "selected = contents s ''steplog''"
  define ordered where "ordered = stage_sort (stage_group selected)"
  define kept where "kept = take (nat limit) ordered"
  obtain rows where rows: "leaderboard (Some s) None None limit_param = Inr rows"
    using leaderboard_returns[OF wf pos] by blast
  have kept_eq: "kept = take (nat limit) (stage_sort (stage_group (contents s ''steplog'')))"
    by (simp add: kept_def ordered_def selected_def)
  note facts = leaderboard_Inr[OF rows, folded limit_def, folded kept_eq]
  have rel: "list_all2 (\<lambda>g row. g_total_steps g = total_steps row \<and> g_id g = VStr (user row))
      kept rows"
    by (rule facts(4))
  have len: "length rows = length kept"
    using rel by (simp add: list_all2_lengthD)
  have row_group: "\<exists>g \<in> set kept. g_total_steps g = total_steps row \<and> g_id g = VStr (user row)"
    if "row \<in> set rows" for row
  proof -
    from that obtain i where "i < length rows" "rows ! i = row"
      by (auto simp: in_set_conv_nth)
    then show ?thesis
      using list_all2_nthD2[OF rel, of i] len by (auto intro!: bexI[of _ "kept ! i"])
  qed
  have group_row: "\<exists>row \<in> set rows. g_total_steps g = total_steps row \<and> g_id g = VStr (user row)"
    if "g \<in> set kept" for g
  proof -
    from that obtain i where "i < length kept" "kept ! i = g"
      by (auto simp: in_set_conv_nth)
    then show ?thesis
      using list_all2_nthD[OF rel, of i] len by (auto intro!: bexI[of _ "rows ! i"])
  qed
  have ordered_set: "set ordered = set (stage_group selected)"
    by (simp add: ordered_def stage_sort_set)
  have kept_sub: "g \<in> set (stage_group selected)" if "g \<in> set kept" for g
    using that ordered_set by (auto simp: kept_def dest: in_set_takeD)
  have dist_kept: "distinct (map g_id kept)"
    unfolding kept_def ordered_def take_map[symmetric]
    by (intro distinct_take) (simp add: stage_sort_distinct stage_group_distinct)
  have "distinct (map VStr (map user rows))"
    using dist_kept facts(2) by (simp add: comp_def)
  then have c1: "distinct (map user rows)"
    using distinct_map[of VStr "map user rows"] by blast
  have c2: "(\<exists>d \<in> set selected. doc_user d = VStr (user row)) \<and>
       total_steps row = steps_of selected (VStr (user row))" if "row \<in> set rows" for row
  proof -
    from row_group[OF that] obtain g where g: "g \<in> set kept"
      "g_total_steps g = total_steps row" "g_id g = VStr (user row)" by blast
    have in_groups: "g \<in> set (stage_group selected)" by (rule kept_sub[OF g(1)])
    then have "g_id g \<in> doc_user ` set selected"
      using stage_group_ids[of selected] by blast
    moreover have "g_total_steps g = steps_of selected (g_id g)"
      by (rule stage_group_total[OF in_groups])
    ultimately show ?thesis using g by auto
  qed
  have "length (stage_group selected) = card (doc_user ` set selected)"
    using distinct_card[OF stage_group_distinct[of selected]] stage_group_ids[of selected]
    by simp
  then have c3: "length rows = min (nat limit) (card (doc_user ` set selected))"
    by (simp add: len kept_def ordered_def stage_sort_length min.commute)
  have c4: "(\<exists>row \<in> set rows. doc_user d = VStr (user row)) \<or>
       (length rows = nat limit \<and>
        (\<forall>row \<in> set rows. steps_of selected (doc_user d) \<le> total_steps row))"
    if "d \<in> set selected" for d
  proof -
    from that have "doc_user d \<in> g_id ` set (stage_group selected)"
      using stage_group_ids[of selected] by blast
    then obtain g where g: "g \<in> set (stage_group selected)" "g_id g = doc_user d"
      by auto
    have tot: "g_total_steps g = steps_of selected (doc_user d)"
      using stage_group_total[OF g(1)] g(2) by simp
    from g(1) have "g \<in> set (take (nat limit) ordered) \<union> set (drop (nat limit) ordered)"
      unfolding set_append[symmetric] append_take_drop_id ordered_set .
    then show ?thesis
    proof
      assume "g \<in> set (take (nat limit) ordered)"
      then have "g \<in> set kept" by (simp add: kept_def)
      from group_row[OF this] g(2) show ?thesis by auto
    next
      assume dropped: "g \<in> set (drop (nat limit) ordered)"
      then have "nat limit < length ordered"
        by (cases "nat limit < length ordered") simp_all
      then have full: "length rows = nat limit"
        by (simp add: len kept_def)
      have "steps_of selected (doc_user d) \<le> total_steps row" if "row \<in> set rows" for row
      proof -
        from row_group[OF that] obtain g' where g': "g' \<in> set kept"
          "g_total_steps g' = total_steps row" by blast
        have "g_total_steps g \<le> g_total_steps g'"
          using sorted_take_drop[OF stage_sort_sorted[of "stage_group selected"],
              of g' "nat limit" g] g'(1) dropped
          by (simp add: kept_def ordered_def)
        then show ?thesis using tot g'(2) by simp
      qed
      then show ?thesis using full by blast
    qed
  qed
  show ?thesis
    using rows c1 c2 c3 c4 unfolding selected_def limit_def by blast
qed

theorem leaderboard_totals_witness:
  "list_all is_steplog (contents example_store ''steplog'') \<and>
   leaderboard (Some example_store) None None None =
     Inr [\<lparr>user = ''bob'', total_steps = 9000\<rparr>, \<lparr>user = ''alice'', total_steps = 8000\<rparr>] \<and>
   steps_of (contents example_store ''steplog'') (VStr ''alice'') = 8000 \<and>
   steps_of (contents example_store ''steplog'') (VStr ''bob'') = 9000"
proof -
  have wf: "list_all is_steplog (contents example_store ''steplog'')"
    by (simp add: example_contents stored_steplog_is_steplog)
  have pos: "0 < (case None :: int option of None \<Rightarrow> 10 | Some n \<Rightarrow> n)"
    by simp
  have ev: "leaderboard (Some example_store) None None None =
      Inr [\<lparr>user = ''bob'', total_steps = 9000\<rparr>, \<lparr>user = ''alice'', total_steps = 8000\<rparr>]"
    by code_simp
  from leaderboard_totals[OF wf pos]
  obtain rows where
    r: "leaderboard (Some example_store) None None None = Inr rows"
    and tot: "\<forall>row \<in> set rows. total_steps row =
      steps_of (contents example_store ''steplog'') (VStr (user row))"
    by blast
  from r ev have "rows = [\<lparr>user = ''bob'', total_steps = 9000\<rparr>, \<lparr>user = ''alice'', total_steps = 8000\<rparr>]"
    by simp
  with tot have "steps_of (contents example_store ''steplog'') (VStr ''alice'') = 8000"
    and "steps_of (contents example_store ''steplog'') (VStr ''bob'') = 9000"
    by simp_all
  with wf ev show ?thesis by simp
qed

text \<open>
  The claim as first stated fails: with eleven users and no limit given, the user
  \<open>u01\<close> has an entry and no row.
\<close>

theorem leaderboard_limit_counterexample:
  "leaderboard (Some eleven_users) None None None =
     Inr [\<lparr>user = ''u11'', total_steps = 11000\<rparr>, \<lparr>user = ''u10'', total_steps = 10000\<rparr>,
          \<lparr>user = ''u09'', total_steps = 9000\<rparr>, \<lparr>user = ''u08'', total_steps = 8000\<rparr>,
          \<lparr>user = ''u07'', total_steps = 7000\<rparr>, \<lparr>user = ''u06'', total_steps = 6000\<rparr>,
          \<lparr>user = ''u05'', total_steps = 5000\<rparr>, \<lparr>user = ''u04'', total_steps = 4000\<rparr>,
          \<lparr>user = ''u03'', total_steps = 3000\<rparr>, \<lparr>user = ''u02'', total_steps = 2000\<rparr>] \<and>
   VStr ''u01'' \<in> set (map doc_user (contents eleven_users ''steplog'')) \<and>
   steps_of (contents eleven_users ''steplog'') (VStr ''u01'') = 1000"
proof -
  have groups: "stage_group (contents eleven_users ''steplog'') =
     [\<lparr>g_id = VStr ''u01'', g_total_steps = 1000\<rparr>, \<lparr>g_id = VStr ''u02'', g_total_steps = 2000\<rparr>,
      \<lparr>g_id = VStr ''u03'', g_total_steps = 3000\<rparr>, \<lparr>g_id = VStr ''u04'', g_total_steps = 4000\<rparr>,
      \<lparr>g_id = VStr ''u05'', g_total_steps = 5000\<rparr>, \<lparr>g_id = VStr ''u06'', g_total_steps = 6000\<rparr>,
      \<lparr>g_id = VStr ''u07'', g_total_steps = 7000\<rparr>, \<lparr>g_id = VStr ''u08'', g_total_steps = 8000\<rparr>,
      \<lparr>g_id = VStr ''u09'', g_total_steps = 9000\<rparr>, \<lparr>g_id = VStr ''u10'', g_total_steps = 10000\<rparr>,
      \<lparr>g_id = VStr ''u11'', g_total_steps = 11000\<rparr>]"
    by (simp add: stage_group_pairs eleven_pairs)
  have board: "leaderboard (Some eleven_users) None None None =
     Inr [\<lparr>user = ''u11'', total_steps = 11000\<rparr>, \<lparr>user = ''u10'', total_steps = 10000\<rparr>,
          \<lparr>user = ''u09'', total_steps = 9000\<rparr>, \<lparr>user = ''u08'', total_steps = 8000\<rparr>,
          \<lparr>user = ''u07'', total_steps = 7000\<rparr>, \<lparr>user = ''u06'', total_steps = 6000\<rparr>,
          \<lparr>user = ''u05'', total_steps = 5000\<rparr>, \<lparr>user = ''u04'', total_steps = 4000\<rparr>,
          \<lparr>user = ''u03'', total_steps = 3000\<rparr>, \<lparr>user = ''u02'', total_steps = 2000\<rparr>]"
    by (simp add: leaderboard_def aggregate_def leaderboard_match_def groups stage_sort_def
        stage_limit_def stage_project_def make_row_def)
  have "map doc_user (contents eleven_users ''steplog'') =
      map fst (map (\<lambda>d. (doc_user d, doc_steps d)) (contents eleven_users ''steplog''))"
    by (simp add: comp_def)
  then have member: "VStr ''u01'' \<in> set (map doc_user (contents eleven_users ''steplog''))"
    unfolding eleven_pairs by simp
  have total: "steps_of (contents eleven_users ''steplog'') (VStr ''u01'') = 1000"
    unfolding steps_of_pairs eleven_pairs by simp
  show ?thesis
    using board member total by (simp only: simp_thms)
qed

section \<open>The leaderboard: integer totals\<close>

text \<open>
  Claim C10. The rows that the leaderboard returns are made from the rows of the
  aggregation by \<open>make_rows\<close>, which converts each total with \<open>int\<close>. Whatever number
  the aggregation holds, the total of a returned row is an integer: the number itself
  when it is an integer, and a float truncated towards zero otherwise.
\<close>

theorem leaderboard_rows_integer:
  "(leaderboard (Some s) start_date end_date limit_param = Inr rows \<longrightarrow>
      (\<exists>results.
         aggregate (contents s ''steplog'') (leaderboard_match start_date end_date)
           (case limit_param of None \<Rightarrow> 10 | Some n \<Rightarrow> n) = Inr results \<and>
         make_rows results = Inr rows)) \<and>
   (make_rows results' = Inr rows' \<longrightarrow>
      list_all2
        (\<lambda>r row. case r_total_steps r of
            NInt i \<Rightarrow> total_steps row = i
          | NFloat q \<Rightarrow> \<bar>rat_of_int (total_steps row)\<bar> \<le> \<bar>q\<bar> \<and> \<bar>q - rat_of_int (total_steps row)\<bar> < 1
          | _ \<Rightarrow> False)
        results' rows')"
proof (intro conjI impI)
  assume "leaderboard (Some s) start_date end_date limit_param = Inr rows"
  then show "\<exists>results.
         aggregate (contents s ''steplog'') (leaderboard_match start_date end_date)
           (case limit_param of None \<Rightarrow> 10 | Some n \<Rightarrow> n) = Inr results \<and>
         make_rows results = Inr rows"
    by (auto simp: leaderboard_def Let_def split: sum.splits)
next
  assume "make_rows results' = Inr rows'"
  from make_rows_Inr[OF this]
  show "list_all2
        (\<lambda>r row. case r_total_steps r of
            NInt i \<Rightarrow> total_steps row = i
          | NFloat q \<Rightarrow> \<bar>rat_of_int (total_steps row)\<bar> \<le> \<bar>q\<bar> \<and> \<bar>q - rat_of_int (total_steps row)\<bar> < 1
          | _ \<Rightarrow> False)
        results' rows'"
    by (rule list_all2_mono) (use py_int_truncates in blast)
qed

theorem leaderboard_rows_integer_witness:
  "leaderboard (Some example_store) None None None =
     Inr [\<lparr>user = ''bob'', total_steps = 9000\<rparr>, \<lparr>user = ''alice'', total_steps = 8000\<rparr>] \<and>
   aggregate (contents example_store ''steplog'') (leaderboard_match None None) 10 =
     Inr [\<lparr>r_user = VStr ''bob'', r_total_steps = NInt 9000\<rparr>,
          \<lparr>r_user = VStr ''alice'', r_total_steps = NInt 8000\<rparr>] \<and>
   make_rows [\<lparr>r_user = VStr ''alice'', r_total_steps = NFloat (15 / 2)\<rparr>,
              \<lparr>r_user = VStr ''bob'', r_total_steps = NFloat (- 5 / 2)\<rparr>] =
     Inr [\<lparr>user = ''alice'', total_steps = 7\<rparr>, \<lparr>user = ''bob'', total_steps = - 2\<rparr>] \<and>
   \<bar>15 / 2 - rat_of_int 7\<bar> < 1"
proof -
  have ev: "leaderboard (Some example_store) None None None =
     Inr [\<lparr>user = ''bob'', total_steps = 9000\<rparr>, \<lparr>user = ''alice'', total_steps = 8000\<rparr>]"
    by code_simp
  have agg: "aggregate (contents example_store ''steplog'') (leaderboard_match None None) 10 =
     Inr [\<lparr>r_user = VStr ''bob'', r_total_steps = NInt 9000\<rparr>,
          \<lparr>r_user = VStr ''alice'', r_total_steps = NInt 8000\<rparr>]"
    by code_simp
  have mk: "make_rows [\<lparr>r_user = VStr ''alice'', r_total_steps = NFloat (15 / 2)\<rparr>,
              \<lparr>r_user = VStr ''bob'', r_total_steps = NFloat (- 5 / 2)\<rparr>] =
     Inr [\<lparr>user = ''alice'', total_steps = 7\<rparr>, \<lparr>user = ''bob'', total_steps = - 2\<rparr>]"
    by code_simp
  from leaderboard_rows_integer[of example_store None None None
      "[\<lparr>user = ''bob'', total_steps = 9000\<rparr>, \<lparr>user = ''alice'', total_steps = 8000\<rparr>]"
      "[\<lparr>r_user = VStr ''alice'', r_total_steps = NFloat (15 / 2)\<rparr>,
        \<lparr>r_user = VStr ''bob'', r_total_steps = NFloat (- 5 / 2)\<rparr>]"
      "[\<lparr>user = ''alice'', total_steps = 7\<rparr>, \<lparr>user = ''bob'', total_steps = - 2\<rparr>]"] mk
  have "\<bar>15 / 2 - rat_of_int 7\<bar> < 1"
    by simp
  with ev agg mk show ?thesis by simp
qed

section \<open>The date bounds\<close>

text \<open>
  Claim C4. \<open>leaderboard\<close> builds the inclusive date filter that the claim describes,
  and its docstring says "Aggregate total steps per user within date range"; but it
  hands the bounds to the driver as \<open>datetime.date\<close> objects, and the driver raises on
  them. With the store of the spec's example and the bounds 2024-01-01 and 2024-01-02,
  the entries dated exactly on the two bounds are stored, and the leaderboard fails
  instead of including them; it fails with either bound alone as well.
\<close>

theorem leaderboard_date_bound_raises:
  "(contents example_store ''steplog'' ! 0) ''date'' = Some (VDate (2024, 1, 1)) \<and>
   (contents example_store ''steplog'' ! 1) ''date'' = Some (VDate (2024, 1, 2)) \<and>
   leaderboard_match (Some (2024, 1, 1)) (Some (2024, 1, 2)) =
     Some \<lparr>gte = Some (2024, 1, 1), lte = Some (2024, 1, 2)\<rparr> \<and>
   leaderboard (Some example_store) (Some (2024, 1, 1)) (Some (2024, 1, 2)) None =
     Inl (InvalidDocument ''cannot encode object: datetime.date'') \<and>
   leaderboard (Some example_store) (Some (2024, 1, 1)) None None =
     Inl (InvalidDocument ''cannot encode object: datetime.date'') \<and>
   leaderboard (Some example_store) None (Some (2024, 1, 2)) None =
     Inl (InvalidDocument ''cannot encode object: datetime.date'')"
  by (simp add: example_contents stored_steplog_fields alice1_def alice2_def
      leaderboard_match_def leaderboard_date_bound)

section \<open>\<open>serialize_doc\<close> leaves its input as it is\<close>

text \<open>
  Claim C9, as amended. \<open>serialize_doc\<close> never mutates its input document: it
  allocates a new dictionary and leaves every dictionary that existed before, the input
  among them, as it was. Every field of the input other than \<open>_id\<close> and \<open>id\<close> is in
  the output with its key and value; the output has no \<open>_id\<close> field; when the input has
  an \<open>_id\<close> field, the output's \<open>id\<close> is the string form of its value (an \<open>id\<close> field
  of the input is replaced); when the input has no \<open>_id\<close> field, the output equals the
  input.
\<close>

theorem serialize_doc_frame:
  assumes "doc < length h"
  shows "\<exists>d h'. serialize_doc_heap h doc = (d, h') \<and>
           d = length h \<and> length h' = Suc (length h) \<and> take (length h) h' = h \<and>
           (h' ! d) ''_id'' = None \<and>
           (\<forall>k. k \<noteq> ''_id'' \<and> k \<noteq> ''id'' \<longrightarrow> (h' ! d) k = (h ! doc) k) \<and>
           (case (h ! doc) ''_id'' of
              None \<Rightarrow> h' ! d = h ! doc
            | Some v \<Rightarrow> (h' ! d) ''id'' = Some (VStr (py_str v)))"
  using assms
  by (cases "(h ! doc) ''_id''")
     (simp_all add: serialize_doc_heap_value serialize_doc_drops_id serialize_doc_other_keys
        serialize_doc_no_id serialize_doc_with_id)

theorem serialize_doc_frame_witness:
  "serialize_doc_heap [stored_steplog ''2024-01-03 08:00:00'' 0 alice1] 0 =
     (1, [stored_steplog ''2024-01-03 08:00:00'' 0 alice1,
          serialize_doc (stored_steplog ''2024-01-03 08:00:00'' 0 alice1)]) \<and>
   serialize_doc (stored_steplog ''2024-01-03 08:00:00'' 0 alice1) ''id'' = Some (VStr ''0'') \<and>
   serialize_doc (stored_steplog ''2024-01-03 08:00:00'' 0 alice1) ''user'' = Some (VStr ''alice'')"
proof -
  have lt: "0 < length [stored_steplog ''2024-01-03 08:00:00'' 0 alice1]"
    by simp
  have id: "stored_steplog ''2024-01-03 08:00:00'' 0 alice1 ''_id'' = Some (VObjectId ''0'')"
    by (simp add: stored_steplog_fields object_id_def str_nat_digit digit_char_def)
  have u: "stored_steplog ''2024-01-03 08:00:00'' 0 alice1 ''user'' = Some (VStr ''alice'')"
    by (simp add: stored_steplog_fields alice1_def)
  from serialize_doc_frame[OF lt] id u
  show ?thesis
    by (auto simp: serialize_doc_heap_value serialize_doc_with_id serialize_doc_other_keys)
qed

text \<open>
  The claim as first stated fails for a document that holds a key \<open>id\<close>: with an
  \<open>_id\<close> field too, the \<open>id\<close> field does not keep its value; without one, the output
  holds an \<open>id\<close> field.
\<close>

theorem serialize_doc_id_counterexample:
  "doc_with_both ''id'' = Some (VStr ''x'') \<and>
   (snd (serialize_doc_heap [doc_with_both] 0) ! 1) ''id'' = Some (VStr ''65a1'') \<and>
   doc_with_id_only ''_id'' = None \<and>
   (snd (serialize_doc_heap [doc_with_id_only] 0) ! 1) ''id'' = Some (VStr ''x'')"
  by (simp add: serialize_doc_heap_value serialize_doc_def doc_with_both_def doc_with_id_only_def)

section \<open>The records that \<open>list_steps\<close> returns\<close>

text \<open>
  Claim C6. In a store whose documents carry their identifier, every record that
  \<open>list_steps\<close> returns comes from a stored document that meets the filter: the record
  has no \<open>_id\<close> field, its \<open>id\<close> field is the string form of the document's
  identifier, and its \<open>user\<close>, \<open>steps\<close>, \<open>date\<close>, \<open>note\<close>, \<open>created_at\<close> and
  \<open>updated_at\<close> fields are the document's.
\<close>

theorem list_steps_exposes_id:
  assumes ids: "list_all has_id (contents s ''steplog'')"
    and rows: "list_steps (Some s) usr start_date end_date limit_param = Inr rows"
    and r: "r \<in> set rows"
  shows "\<exists>d \<in> set (contents s ''steplog''). \<exists>v.
           matches (list_steps_query usr start_date end_date) d \<and>
           d ''_id'' = Some v \<and> r ''_id'' = None \<and> r ''id'' = Some (VStr (py_str v)) \<and>
           r ''user'' = d ''user'' \<and> r ''steps'' = d ''steps'' \<and> r ''date'' = d ''date'' \<and>
           r ''note'' = d ''note'' \<and> r ''created_at'' = d ''created_at'' \<and>
           r ''updated_at'' = d ''updated_at''"
proof -
  from rows r obtain d where d: "d \<in> set (get_documents s ''steplog''
      (list_steps_query usr start_date end_date) (case limit_param of None \<Rightarrow> 50 | Some n \<Rightarrow> n))"
    and rd: "r = serialize_doc d"
    by (auto simp: list_steps_def Let_def)
  from d have stored: "d \<in> set (contents s ''steplog'')"
    and m: "matches (list_steps_query usr start_date end_date) d"
    by (auto simp: get_documents_def dest: in_set_takeD)
  from ids stored obtain v where v: "d ''_id'' = Some v"
    by (auto simp: list_all_iff has_id_def)
  have "r ''id'' = Some (VStr (py_str v))"
    using v by (simp add: rd serialize_doc_with_id)
  then show ?thesis
    using stored m v by (auto simp: rd serialize_doc_drops_id serialize_doc_other_keys)
qed

theorem list_steps_exposes_id_witness:
  "list_all has_id (contents example_store ''steplog'') \<and>
   list_steps (Some example_store) (Some ''alice'') (Some (2024, 1, 2)) (Some (2024, 1, 2)) None =
     Inr [serialize_doc (stored_steplog ''2024-01-03 08:00:00'' 1 alice2)] \<and>
   serialize_doc (stored_steplog ''2024-01-03 08:00:00'' 1 alice2) ''_id'' = None \<and>
   serialize_doc (stored_steplog ''2024-01-03 08:00:00'' 1 alice2) ''id'' = Some (VStr ''1'') \<and>
   serialize_doc (stored_steplog ''2024-01-03 08:00:00'' 1 alice2) ''steps'' = Some (VInt 3000)"
proof -
  have mem: "serialize_doc (stored_steplog ''2024-01-03 08:00:00'' 1 alice2) \<in>
      set [serialize_doc (stored_steplog ''2024-01-03 08:00:00'' 1 alice2)]"
    by simp
  from list_steps_exposes_id[OF example_has_ids example_alice_day2 mem]
  have "serialize_doc (stored_steplog ''2024-01-03 08:00:00'' 1 alice2) ''_id'' = None"
    by blast
  moreover have "serialize_doc (stored_steplog ''2024-01-03 08:00:00'' 1 alice2) ''id'' =
      Some (VStr ''1'')"
    by (simp add: serialize_doc_def stored_steplog_fields object_id_def str_nat_digit
        digit_char_def)
  moreover have "serialize_doc (stored_steplog ''2024-01-03 08:00:00'' 1 alice2) ''steps'' =
      Some (VInt 3000)"
    by (simp add: serialize_doc_other_keys stored_steplog_fields alice2_def)
  ultimately show ?thesis
    using example_has_ids example_alice_day2 by simp
qed

section \<open>Create, then list\<close>

text \<open>
  Claim C2, as amended. For every valid submission, when fewer records than the limit of
  the list request (50 by default) are stored for the submission's user and date,
  \<open>add_steps\<close> followed by \<open>list_steps\<close> for that user and date returns a record whose
  \<open>steps\<close>, \<open>date\<close> and \<open>note\<close> are the submitted values and whose \<open>id\<close> is the
  identifier that \<open>add_steps\<close> returned: a non-empty string that is not among the
  identifiers issued before. The store returns documents in the order of their
  insertion, and \<open>get_documents\<close> returns at most \<open>limit\<close> of them.
\<close>

theorem create_then_list:
  assumes valid: "valid_steplog entry"
    and room: "length (filter (\<lambda>d. d ''user'' = Some (VStr (sl_user entry)) \<and>
                                   d ''date'' = Some (VDate (sl_date entry)))
                 (contents s ''steplog'')) <
               nat (case limit_param of None \<Rightarrow> 50 | Some n \<Rightarrow> n)"
  shows "\<exists>new_id s' rows r.
     add_steps (Some s) entry = Inr ([''id'' \<mapsto> VStr new_id], s') \<and>
     new_id \<noteq> [] \<and> new_id \<notin> set (issued_ids s) \<and> issued_ids s' = issued_ids s @ [new_id] \<and>
     list_steps (Some s') (Some (sl_user entry)) (Some (sl_date entry)) (Some (sl_date entry))
       limit_param = Inr rows \<and>
     r \<in> set rows \<and>
     r ''id'' = Some (VStr new_id) \<and>
     r ''user'' = Some (VStr (sl_user entry)) \<and>
     r ''steps'' = Some (VInt (sl_steps entry)) \<and>
     r ''date'' = Some (VDate (sl_date entry)) \<and>
     r ''note'' = Some (case sl_note entry of None \<Rightarrow> VNone | Some t \<Rightarrow> VStr t)"
proof -
  define new_id where "new_id = str_nat (issued s)"
  define new_doc where "new_doc = stored_steplog (clock s) (issued s) entry"
  define s' where "s' = s\<lparr>contents := (contents s)(''steplog'' := contents s ''steplog'' @ [new_doc]),
      issued := Suc (issued s)\<rparr>"
  define same where "same = (\<lambda>d. d ''user'' = Some (VStr (sl_user entry)) \<and>
      d ''date'' = Some (VDate (sl_date entry)))"
  define limit where "limit = nat (case limit_param of None \<Rightarrow> 50 | Some n \<Rightarrow> n)"
  define r where "r = serialize_doc new_doc"
  have created: "add_steps (Some s) entry = Inr ([''id'' \<mapsto> VStr new_id], s')"
    by (simp add: add_steps_Some new_id_def s'_def new_doc_def)
  have ids: "issued_ids s' = issued_ids s @ [new_id]"
    by (simp add: issued_ids_str s'_def new_id_def)
  have user: "sl_user entry \<noteq> []"
    using valid by (simp add: valid_steplog_def)
  have sel: "(\<lambda>d. (case Some (sl_user entry) of None \<Rightarrow> True
                    | Some u \<Rightarrow> u = [] \<or> d ''user'' = Some (VStr u)) \<and>
                  doc_within (Some (sl_date entry)) (Some (sl_date entry)) d) = same"
    using user by (simp add: same_def doc_within_day)
  have "same new_doc"
    by (simp add: same_def new_doc_def stored_steplog_fields)
  then have found: "filter same (contents s' ''steplog'') =
      filter same (contents s ''steplog'') @ [new_doc]"
    by (simp add: s'_def)
  have listed: "list_steps (Some s') (Some (sl_user entry)) (Some (sl_date entry))
      (Some (sl_date entry)) limit_param =
      Inr (map serialize_doc (take limit (filter same (contents s' ''steplog''))))"
    unfolding list_steps_Some sel limit_def ..
  have "length (filter same (contents s ''steplog'')) < limit"
    using room by (simp add: same_def limit_def)
  then have "new_doc \<in> set (take limit (filter same (contents s' ''steplog'')))"
    unfolding found by (simp add: take_append)
  then have member: "r \<in> set (map serialize_doc (take limit (filter same (contents s' ''steplog''))))"
    unfolding r_def by simp
  have id: "new_doc ''_id'' = Some (VObjectId new_id)"
    by (simp add: new_doc_def new_id_def stored_steplog_fields object_id_def)
  have fields: "r ''id'' = Some (VStr new_id)"
    "r ''user'' = Some (VStr (sl_user entry))"
    "r ''steps'' = Some (VInt (sl_steps entry))"
    "r ''date'' = Some (VDate (sl_date entry))"
    "r ''note'' = Some (case sl_note entry of None \<Rightarrow> VNone | Some t \<Rightarrow> VStr t)"
    using id by (simp_all add: r_def serialize_doc_with_id serialize_doc_other_keys
        new_doc_def stored_steplog_fields)
  have "new_id \<noteq> []" "new_id \<notin> set (issued_ids s)"
    by (simp_all add: new_id_def str_nat_nonempty fresh_id)
  with created ids listed member fields show ?thesis
    by blast
qed

theorem create_then_list_witness:
  "valid_steplog alice3 \<and>
   add_steps (Some example_store) alice3 =
     Inr ([''id'' \<mapsto> VStr ''3''], add_all example_store [alice3]) \<and>
   ''3'' \<notin> set (issued_ids example_store) \<and>
   list_steps (Some (add_all example_store [alice3])) (Some ''alice'') (Some (2024, 1, 1))
     (Some (2024, 1, 1)) None =
     Inr [serialize_doc (stored_steplog ''2024-01-03 08:00:00'' 0 alice1),
          serialize_doc (stored_steplog ''2024-01-03 08:00:00'' 3 alice3)] \<and>
   serialize_doc (stored_steplog ''2024-01-03 08:00:00'' 3 alice3) ''id'' = Some (VStr ''3'') \<and>
   serialize_doc (stored_steplog ''2024-01-03 08:00:00'' 3 alice3) ''steps'' = Some (VInt 4000)"
proof -
  have valid: "valid_steplog alice3"
    by (simp add: valid_steplog_def alice3_def)
  have room: "length (filter (\<lambda>d. d ''user'' = Some (VStr (sl_user alice3)) \<and>
                                   d ''date'' = Some (VDate (sl_date alice3)))
                 (contents example_store ''steplog'')) <
               nat (case None :: int option of None \<Rightarrow> 50 | Some n \<Rightarrow> n)"
    by (simp add: example_contents stored_steplog_fields alice1_def alice2_def bob1_def alice3_def)
  have "\<exists>new_id s'.
      add_steps (Some example_store) alice3 = Inr ([''id'' \<mapsto> VStr new_id], s') \<and>
      new_id \<notin> set (issued_ids example_store)"
    using create_then_list[OF valid room]
    by (elim exE conjE) (rule exI, rule exI, rule conjI, assumption, assumption)
  then obtain new_id s' where
    a: "add_steps (Some example_store) alice3 = Inr ([''id'' \<mapsto> VStr new_id], s')"
    and fresh: "new_id \<notin> set (issued_ids example_store)"
    by (elim exE conjE)
  have "Inr ([''id'' \<mapsto> VStr ''3''], add_all example_store [alice3]) =
      (Inr ([''id'' \<mapsto> VStr new_id], s') :: error + doc \<times> store)"
    using example_add_alice3[symmetric] a by (rule trans)
  then have "[''id'' \<mapsto> VStr ''3''] = [''id'' \<mapsto> VStr new_id] \<and>
      add_all example_store [alice3] = s'"
    by (simp only: sum.inject prod.inject)
  then have "[''id'' \<mapsto> VStr ''3''] = [''id'' \<mapsto> VStr new_id]"
    by (rule conjunct1)
  then have "VStr ''3'' = VStr new_id"
    by (rule map_upd_eqD1)
  then have eq: "new_id = ''3''"
    by (simp only: pyval.inject)
  have c1: "''3'' \<notin> set (issued_ids example_store)"
    using fresh unfolding eq .
  have c2: "list_steps (Some (add_all example_store [alice3])) (Some ''alice'') (Some (2024, 1, 1))
     (Some (2024, 1, 1)) None =
     Inr [serialize_doc (stored_steplog ''2024-01-03 08:00:00'' 0 alice1),
          serialize_doc (stored_steplog ''2024-01-03 08:00:00'' 3 alice3)]"
    unfolding list_steps_Some example_after_contents
    by (simp add: stored_steplog_fields doc_within_day alice1_def alice2_def bob1_def alice3_def)
  have c3: "serialize_doc (stored_steplog ''2024-01-03 08:00:00'' 3 alice3) ''id'' = Some (VStr ''3'')"
    by (simp add: stored_serialized str_nat_3)
  have c4: "serialize_doc (stored_steplog ''2024-01-03 08:00:00'' 3 alice3) ''steps'' =
      Some (VInt 4000)"
    by (simp add: stored_serialized alice3_def)
  show ?thesis
    by (intro conjI valid example_add_alice3 c1 c2 c3 c4)
qed

text \<open>
  The claim as first stated fails at the limit of the list request: with fifty entries
  of 5000 steps stored for alice on 2024-01-01, a submission of 4000 steps for alice on
  that date is stored under the identifier \<open>50\<close>, and the list for alice and that date,
  with no limit given, returns the fifty earlier records: each holds 5000 steps and an
  identifier issued before.
\<close>

theorem create_then_list_counterexample:
  "valid_steplog alice3 \<and> sl_steps alice3 = 4000 \<and>
   add_steps (Some fifty_entries) alice3 =
     Inr ([''id'' \<mapsto> VStr ''50''], add_all fifty_entries [alice3]) \<and>
   list_steps (Some (add_all fifty_entries [alice3])) (Some ''alice'') (Some (2024, 1, 1))
     (Some (2024, 1, 1)) None =
     Inr (map serialize_doc (contents fifty_entries ''steplog'')) \<and>
   field_values ''steps'' (map serialize_doc (contents fifty_entries ''steplog'')) =
     replicate 50 (Some (VInt 5000)) \<and>
   field_values ''id'' (map serialize_doc (contents fifty_entries ''steplog'')) =
     map Some (map VStr (issued_ids fifty_entries))"
proof -
  have valid: "valid_steplog alice3" and submitted: "sl_steps alice3 = 4000"
    by (simp_all add: valid_steplog_def alice3_def)
  have steps: "field_values ''steps'' (map serialize_doc (contents fifty_entries ''steplog'')) =
     replicate 50 (Some (VInt 5000))"
    by (simp add: field_values_def fifty_contents stored_serialized alice1_def comp_def
        map_replicate_const)
  have ids: "field_values ''id'' (map serialize_doc (contents fifty_entries ''steplog'')) =
     map Some (map VStr (issued_ids fifty_entries))"
    by (simp add: field_values_def fifty_contents issued_ids_str fifty_issued comp_def
        stored_serialized)
  show ?thesis
    by (intro conjI valid submitted fifty_add_alice3 fifty_listed steps ids)
qed

end
